theory Spec2Isabelle
  imports Main "HOL-Library.Code_Target_Numeral"
begin

section \<open>Values handed to getString\<close>

text \<open>
  The arguments of \<^verbatim>\<open>getString(name, args, plural)\<close> are untyped JavaScript values.
  \<open>jsval\<close> holds the values that carry no code of the caller: \<^verbatim>\<open>undefined\<close> and
  \<^verbatim>\<open>null\<close> (both \<^verbatim>\<open>== null\<close>), strings, numbers and arrays of such values. A number
  is given by an integer; an integer that is no Number value stands for the
  Number value next to it, as a numeric literal does. Strings are lists of 8-bit
  characters; arrays are dense. Fractions and \<^verbatim>\<open>NaN\<close> need floating point and are
  left out; as an argument to fill in, such a number does what the string of its
  text does. Objects with a \<^verbatim>\<open>toString\<close> of their own and functions run code of the
  caller inside \<^verbatim>\<open>getString\<close>; they come in the section on arguments that carry code.
\<close>

datatype jsval = Undefined | Null | Str string | Num int | Arr "jsval list"

datatype error =
    MissingKey             \<comment> \<open>\<^verbatim>\<open>GetStringFromName\<close> throws: the bundle has no such key\<close>
  | LocaleUnavailable      \<comment> \<open>TypeError: \<^verbatim>\<open>GetStringFromName\<close> is read from a bundle that is \<^verbatim>\<open>null\<close>\<close>
  | PluralUninitialized    \<comment> \<open>TypeError: \<^verbatim>\<open>getString.plural\<close> is called before \<^verbatim>\<open>init\<close> has set it\<close>
  | PluralFormOutOfRange   \<comment> \<open>raised by a plural getter whose rule points past the forms\<close>
  | Thrown string          \<comment> \<open>an exception that code of the caller throws\<close>

subsection \<open>ToString\<close>

definition digit_char :: "nat \<Rightarrow> char" where
  "digit_char d =
     (if d = 0 then CHR ''0'' else if d = 1 then CHR ''1'' else if d = 2 then CHR ''2''
      else if d = 3 then CHR ''3'' else if d = 4 then CHR ''4'' else if d = 5 then CHR ''5''
      else if d = 6 then CHR ''6'' else if d = 7 then CHR ''7'' else if d = 8 then CHR ''8''
      else CHR ''9'')"

fun show_nat :: "nat \<Rightarrow> string" where
  "show_nat n = (if n < 10 then [digit_char n] else show_nat (n div 10) @ [digit_char (n mod 10)])"

declare show_nat.simps [simp del]

text \<open>
  The Number value of a natural number: the IEEE 754 double next to it, ties to the
  even mantissa; \<open>None\<close> is \<^verbatim>\<open>Infinity\<close>. Up to \<open>2 ^ 53\<close> every integer is a Number
  value.
\<close>

fun bit_length :: "nat \<Rightarrow> nat" where
  "bit_length n = (if n = 0 then 0 else Suc (bit_length (n div 2)))"

declare bit_length.simps [simp del]

definition NumberValue :: "nat \<Rightarrow> nat option" where
  "NumberValue i =
     (if i < 2 ^ 53 then Some i
      else (let shift = bit_length i - 53;
                q = i div 2 ^ shift;
                r = i mod 2 ^ shift;
                half = 2 ^ (shift - 1);
                q' = (if half < r \<or> (r = half \<and> odd q) then q + 1 else q)
            in if 2 ^ 1024 \<le> q' * 2 ^ shift then None else Some (q' * 2 ^ shift)))"

text \<open>
  ECMAScript prints a Number value \<open>m\<close> from the integers \<open>s\<close>, \<open>k\<close> and \<open>n\<close> with \<open>k\<close>
  digits in \<open>s\<close>, the Number value of \<open>s * 10 ^ (n - k)\<close> equal to \<open>m\<close>, and \<open>k\<close> as small
  as possible; among several \<open>s\<close> the one next to \<open>m\<close>, and of two equally near the
  even one. For an integer \<open>m\<close> of \<open>l\<close> digits, \<open>n\<close> is \<open>l\<close> or \<open>l + 1\<close> and \<open>k \<le> n\<close>.
\<close>

definition distance :: "nat \<Rightarrow> nat \<Rightarrow> nat" where
  "distance a b = (if a \<le> b then b - a else a - b)"

definition candidates :: "nat \<Rightarrow> nat \<Rightarrow> (nat \<times> nat) list" where
  "candidates m k =
     concat (map (\<lambda>n. if n < k then []
                        else filter (\<lambda>(s, n). 10 ^ (k - 1) \<le> s \<and> s < 10 ^ k
                                               \<and> NumberValue (s * 10 ^ (n - k)) = Some m)
                               [(m div 10 ^ (n - k), n), (m div 10 ^ (n - k) + 1, n)])
                 [length (show_nat m), length (show_nat m) + 1])"

fun closest :: "nat \<Rightarrow> nat \<Rightarrow> (nat \<times> nat) list \<Rightarrow> (nat \<times> nat) option" where
  "closest m k [] = None"
| "closest m k ((s, n) # rest) =
     (case closest m k rest of
        None \<Rightarrow> Some (s, n)
      | Some (s', n') \<Rightarrow>
          (if distance (s * 10 ^ (n - k)) m < distance (s' * 10 ^ (n' - k)) m
              \<or> (distance (s * 10 ^ (n - k)) m = distance (s' * 10 ^ (n' - k)) m \<and> even s)
           then Some (s, n) else Some (s', n')))"

fun shortest :: "nat \<Rightarrow> nat list \<Rightarrow> (nat \<times> nat \<times> nat) option" where
  "shortest m [] = None"
| "shortest m (k # ks) =
     (case closest m k (candidates m k) of
        Some (s, n) \<Rightarrow> Some (s, k, n)
      | None \<Rightarrow> shortest m ks)"

text \<open>
  The text of the Number value of a natural number: plain digits up to 21 places
  (below \<open>2 ^ 53\<close> they are the digits of the integer itself), from then on one
  digit, the other digits behind a point, and the exponent.
\<close>

definition number_text :: "nat \<Rightarrow> string" where
  "number_text i =
     (case NumberValue i of
        None \<Rightarrow> ''Infinity''
      | Some m \<Rightarrow>
          (if m < 2 ^ 53 then show_nat m
           else (case shortest m [1 ..< Suc (length (show_nat m))] of
                   None \<Rightarrow> show_nat m
                 | Some (s, k, n) \<Rightarrow>
                     (if n \<le> 21 then show_nat s @ replicate (n - k) CHR ''0''
                      else if k = 1 then show_nat s @ ''e+'' @ show_nat (n - 1)
                      else hd (show_nat s) # CHR ''.'' # tl (show_nat s) @ ''e+'' @ show_nat (n - 1)))))"

definition Number_toString :: "int \<Rightarrow> string" where
  "Number_toString i =
     (if i < 0 then CHR ''-'' # number_text (nat (- i)) else number_text (nat i))"

fun join :: "string list \<Rightarrow> string" where
  "join [] = []"
| "join [x] = x"
| "join (x # y # ys) = x @ CHR '','' # join (y # ys)"

text \<open>
  \<^verbatim>\<open>ToString\<close> as \<^verbatim>\<open>String.prototype.replace\<close> applies it to a replacement value that is
  not a function: an array prints its elements separated by commas, with
  \<^verbatim>\<open>undefined\<close> and \<^verbatim>\<open>null\<close> elements printed as nothing.
\<close>

fun ToString :: "jsval \<Rightarrow> string" where
  "ToString Undefined = ''undefined''"
| "ToString Null = ''null''"
| "ToString (Str s) = s"
| "ToString (Num i) = Number_toString i"
| "ToString (Arr xs) =
     join (map (\<lambda>v. if v = Undefined \<or> v = Null then [] else ToString v) xs)"

section \<open>String.prototype.replace with a global, case-insensitive literal pattern\<close>

text \<open>
  Both regular expressions of \<^verbatim>\<open>getString\<close>, \<^verbatim>\<open>/%s/gi\<close> and
  \<^verbatim>\<open>RegExp("%" + (index + 1) + "\\$S", "gi")\<close>, match a fixed sequence of characters
  (\<^verbatim>\<open>\$\<close> is the character \<^verbatim>\<open>$\<close>), compared after canonicalisation because of the
  flag \<^verbatim>\<open>i\<close>. A pattern is modelled as the string it matches. The only letters in the
  patterns are ASCII, and canonicalisation never maps a character outside ASCII
  to an ASCII one, so upper-casing the ASCII letters is all that matters.
\<close>

definition upcase :: "char \<Rightarrow> char" where
  "upcase c =
     (let n = (of_char c :: nat) in if 97 \<le> n \<and> n \<le> 122 then char_of (n - 32) else c)"

definition ci_prefix :: "string \<Rightarrow> string \<Rightarrow> bool" where
  "ci_prefix pat s \<longleftrightarrow>
     length pat \<le> length s \<and> map upcase (take (length pat) s) = map upcase pat"

text \<open>
  The replacement text is not inserted as it is. As ECMAScript defines the
  expansion, \<^verbatim>\<open>$$\<close> stands for \<^verbatim>\<open>$\<close>, \<^verbatim>\<open>$&\<close> for the matched text, \<^verbatim>\<open>$`\<close> for the text
  of the subject before the match and \<^verbatim>\<open>$'\<close> for the text after it. The patterns
  have no capture group, so \<^verbatim>\<open>$1\<close> ... \<^verbatim>\<open>$99\<close> stay as they are, and so does a
  dollar sign before any other character.
\<close>

fun GetSubstitution :: "string \<Rightarrow> string \<Rightarrow> string \<Rightarrow> string \<Rightarrow> string" where
  "GetSubstitution matched leftContext rightContext [] = []"
| "GetSubstitution matched leftContext rightContext [c] = [c]"
| "GetSubstitution matched leftContext rightContext (c # d # r) =
     (if c = CHR ''$'' \<and> d = CHR ''$'' then CHR ''$'' # GetSubstitution matched leftContext rightContext r
      else if c = CHR ''$'' \<and> d = CHR ''&'' then matched @ GetSubstitution matched leftContext rightContext r
      else if c = CHR ''$'' \<and> d = CHR 0x60 then leftContext @ GetSubstitution matched leftContext rightContext r
      else if c = CHR ''$'' \<and> d = CHR 0x27 then rightContext @ GetSubstitution matched leftContext rightContext r
      else c # GetSubstitution matched leftContext rightContext (d # r))"

text \<open>
  A replacement text that has none of the four sequences is inserted as it is.
\<close>

fun as_is :: "string \<Rightarrow> bool" where
  "as_is [] \<longleftrightarrow> True"
| "as_is [c] \<longleftrightarrow> True"
| "as_is (c # d # r) \<longleftrightarrow>
     (c \<noteq> CHR ''$'' \<or> (d \<noteq> CHR ''$'' \<and> d \<noteq> CHR ''&'' \<and> d \<noteq> CHR 0x60 \<and> d \<noteq> CHR 0x27))
     \<and> as_is (d # r)"

text \<open>
  The global replacement scans the string from the left: \<open>leftContext\<close> is the
  part of the subject already passed, \<open>s\<close> the part still to scan. At a match the
  expanded replacement is emitted and the scan goes on behind the match; elsewhere
  one character is copied. The patterns of \<^verbatim>\<open>getString\<close> are never empty; for an empty
  pattern the model copies the subject.
\<close>

function replace_from :: "string \<Rightarrow> string \<Rightarrow> string \<Rightarrow> string \<Rightarrow> string" where
  "replace_from pat repl leftContext [] = []"
| "replace_from pat repl leftContext (c # cs) =
     (if pat \<noteq> [] \<and> ci_prefix pat (c # cs)
      then GetSubstitution (take (length pat) (c # cs)) leftContext (drop (length pat) (c # cs)) repl
           @ replace_from pat repl (leftContext @ take (length pat) (c # cs)) (drop (length pat) (c # cs))
      else c # replace_from pat repl (leftContext @ [c]) cs)"
  by pat_completeness auto
termination
  by (relation "measure (\<lambda>(pat, repl, leftContext, s). length s)") auto

declare replace_from.simps(2) [simp del]

definition replace :: "string \<Rightarrow> jsval \<Rightarrow> string \<Rightarrow> string" where
  "replace pat replacement str = replace_from pat (ToString replacement) [] str"

section \<open>getString\<close>

type_synonym string_bundle = "string \<rightharpoonup> string"

text \<open>
  The properties \<^verbatim>\<open>getString.bundle\<close>, \<^verbatim>\<open>getString.fallback\<close> and \<^verbatim>\<open>getString.plural\<close>.
  A bundle is \<open>None\<close> when the property is \<^verbatim>\<open>null\<close> or was never set; so is the
  plural getter.
\<close>

record formatter =
  "bundle" :: "string_bundle option"
  fallback :: "string_bundle option"
  plural :: "(jsval \<Rightarrow> string \<Rightarrow> error + string) option"

definition GetStringFromName :: "string_bundle option \<Rightarrow> string \<Rightarrow> error + string" where
  "GetStringFromName b name =
     (case b of
        None \<Rightarrow> Inl LocaleUnavailable
      | Some t \<Rightarrow> (case t name of None \<Rightarrow> Inl MissingKey | Some str \<Rightarrow> Inr str))"

text \<open>Lines 69 to 76: the \<^verbatim>\<open>try\<close> reads the bundle, the \<^verbatim>\<open>catch\<close> reads the fallback.\<close>

definition lookup :: "formatter \<Rightarrow> string \<Rightarrow> error + string" where
  "lookup st name =
     (case GetStringFromName (bundle st) name of
        Inr str \<Rightarrow> Inr str
      | Inl ex \<Rightarrow> GetStringFromName (fallback st) name)"

text \<open>Lines 79 and 80: \<^verbatim>\<open>if (plural != null) str = getString.plural(plural, str)\<close>.\<close>

definition pick_plural :: "formatter \<Rightarrow> jsval \<Rightarrow> string \<Rightarrow> error + string" where
  "pick_plural st q str =
     (if q \<noteq> Undefined \<and> q \<noteq> Null
      then (case plural st of None \<Rightarrow> Inl PluralUninitialized | Some get \<Rightarrow> get q str)
      else Inr str)"

text \<open>
  Lines 85 and 86: a string, or a value with no \<^verbatim>\<open>length\<close>, becomes a one-element
  array. (\<^verbatim>\<open>undefined\<close> and \<^verbatim>\<open>null\<close> never get here.)
\<close>

definition to_array :: "jsval \<Rightarrow> jsval list" where
  "to_array args = (case args of Arr xs \<Rightarrow> xs | _ \<Rightarrow> [args])"

text \<open>\<^verbatim>\<open>args[0]\<close>: reading past the end of an array gives \<^verbatim>\<open>undefined\<close>.\<close>

definition first_arg :: "jsval list \<Rightarrow> jsval" where
  "first_arg xs = (case xs of [] \<Rightarrow> Undefined | x # _ \<Rightarrow> x)"

text \<open>Line 89: \<^verbatim>\<open>str.replace(/%s/gi, args[0])\<close>.\<close>

definition bare_pass :: "jsval list \<Rightarrow> string \<Rightarrow> string" where
  "bare_pass xs str = replace ''%s'' (first_arg xs) str"

text \<open>Line 93: the pattern of \<^verbatim>\<open>RegExp("%" + (index + 1) + "\\$S", "gi")\<close>.\<close>

definition positional :: "nat \<Rightarrow> string" where
  "positional index = ''%'' @ show_nat (index + 1) @ ''$S''"

text \<open>Lines 92 to 94: \<^verbatim>\<open>Array.forEach\<close> from the element at \<open>index\<close> on.\<close>

fun forEach_replace :: "nat \<Rightarrow> jsval list \<Rightarrow> string \<Rightarrow> string" where
  "forEach_replace index [] str = str"
| "forEach_replace index (replacement # rest) str =
     forEach_replace (index + 1) rest (replace (positional index) replacement str)"

definition positional_pass :: "jsval list \<Rightarrow> string \<Rightarrow> string" where
  "positional_pass xs str = forEach_replace 0 xs str"

text \<open>Lines 83 to 95.\<close>

definition fill_args :: "jsval \<Rightarrow> string \<Rightarrow> string" where
  "fill_args args str =
     (if args \<noteq> Undefined \<and> args \<noteq> Null
      then positional_pass (to_array args) (bare_pass (to_array args) str)
      else str)"

text \<open>
  \<^verbatim>\<open>getString(name, args, plural)\<close>. The function reads the three properties and is
  given the state and hands it back, as \<^verbatim>\<open>init\<close> below does; an exception is the
  result \<open>Inl\<close>.
\<close>

definition getString :: "formatter \<Rightarrow> string \<Rightarrow> jsval \<Rightarrow> jsval \<Rightarrow> (error + string) \<times> formatter" where
  "getString st name args q =
     (case lookup st name of
        Inl ex \<Rightarrow> (Inl ex, st)
      | Inr str \<Rightarrow>
          (case pick_plural st q str of
             Inl ex \<Rightarrow> (Inl ex, st)
           | Inr str' \<Rightarrow> (Inr (fill_args args str'), st)))"

section \<open>getString.init\<close>

text \<open>
  What \<^verbatim>\<open>init\<close> takes from the host: the inner function \<^verbatim>\<open>getBundle\<close> (the properties
  file of a locale in the add-on, or \<^verbatim>\<open>null\<close> when the bundle cannot be created or
  enumerated), the locale selected in the chrome registry, and
  \<^verbatim>\<open>PluralForm.makeGetter\<close>, of which only the first component of the result is kept.
\<close>

record environment =
  getBundle :: "string \<Rightarrow> string_bundle option"
  getSelectedLocale :: string
  makeGetter :: "string \<Rightarrow> jsval \<Rightarrow> string \<Rightarrow> error + string"

text \<open>
  Lines 110 to 146. \<open>getAlternate\<close> is \<open>None\<close> when the caller passes nothing that is
  a function (lines 112 and 113). The two bundles are stored before
  \<^verbatim>\<open>getString("pluralRule")\<close> runs, so they stay stored when that call throws.
\<close>

definition alternate :: "(string \<Rightarrow> string) option \<Rightarrow> string \<Rightarrow> string" where
  "alternate getAlternate = (case getAlternate of Some f \<Rightarrow> f | None \<Rightarrow> (\<lambda>_. ''en-US''))"

definition init :: "environment \<Rightarrow> (string \<Rightarrow> string) option \<Rightarrow> formatter \<Rightarrow> (error + unit) \<times> formatter" where
  "init env getAlternate st =
     (let locale = getSelectedLocale env;
          st1 = st\<lparr>bundle := (case getBundle env locale of
                                 Some b \<Rightarrow> Some b
                               | None \<Rightarrow> getBundle env (alternate getAlternate locale))\<rparr>;
          st2 = st1\<lparr>fallback := getBundle env ''en-US''\<rparr>
      in case getString st2 ''pluralRule'' Undefined Undefined of
           (Inl ex, st3) \<Rightarrow> (Inl ex, st3)
         | (Inr rule, st3) \<Rightarrow> (Inr (), st3\<lparr>plural := Some (makeGetter env rule)\<rparr>))"

section \<open>A plural getter\<close>

text \<open>
  \<^verbatim>\<open>PluralForm.jsm\<close>, whose \<^verbatim>\<open>makeGetter\<close> gives \<^verbatim>\<open>getString.plural\<close>, belongs to the host
  and is not under src/. \<^verbatim>\<open>init\<close> and \<^verbatim>\<open>getString\<close> take the getter as it comes; the
  three definitions below give the one getter that a property of \<^verbatim>\<open>getString\<close> is
  stated with.
\<close>

text \<open>
  Modelled from the spec: the plural rule of the family "two forms, boundary at
  1" of the registry of \<^verbatim>\<open>PluralForm.jsm\<close>, a function from the number to the index of
  a form.
\<close>

definition two_forms :: "int \<Rightarrow> nat" where
  "two_forms n = (if n = 1 then 0 else 1)"

text \<open>
  Modelled from the spec: the parse step of \<^verbatim>\<open>PluralForm.jsm\<close> that splits a template
  into its forms. The spec leaves the delimiter to the template data; it is the
  semicolon here.
\<close>

fun split_forms :: "string \<Rightarrow> string list" where
  "split_forms [] = [[]]"
| "split_forms (c # cs) =
     (if c = CHR '';'' then [] # split_forms cs
      else (case split_forms cs of [] \<Rightarrow> [[c]] | f # fs \<Rightarrow> (c # f) # fs))"

text \<open>
  Modelled from the spec: the getter that \<^verbatim>\<open>PluralForm.makeGetter\<close> returns. It applies
  the rule to a number and picks the form at that index, and fails with
  \<open>PluralFormOutOfRange\<close> when the index has no form. A value that is not a number
  is outside the spec's step and leaves the template as it is.
\<close>

definition plural_getter :: "(int \<Rightarrow> nat) \<Rightarrow> jsval \<Rightarrow> string \<Rightarrow> error + string" where
  "plural_getter rule q str =
     (case q of
        Num n \<Rightarrow>
          (let forms = split_forms str; i = rule n
           in if i < length forms then Inr (forms ! i) else Inl PluralFormOutOfRange)
      | _ \<Rightarrow> Inr str)"

section \<open>Templates as sequences of pieces\<close>

text \<open>
  The notions in which the spec describes the two substitution passes, to be
  compared with what the regular expressions of the code do. A template is read as
  a sequence of pieces: text without a percent sign, the placeholder for the first
  argument (\<^verbatim>\<open>%s\<close> or \<^verbatim>\<open>%S\<close>) and the placeholder for the argument of a number
  (\<^verbatim>\<open>%N$S\<close> or \<^verbatim>\<open>%N$s\<close>). \<open>spec_bare\<close> and \<open>spec_positional\<close> follow the spec's
  words: every placeholder for the first argument becomes the first element of the
  arguments; every placeholder for the number \<open>i + 1\<close> becomes the element at index
  \<open>i\<close>. An argument is \<open>plain\<close> when its text has no percent sign and is inserted
  as it is.
\<close>

datatype piece = Text string | Bare char | Numbered nat char

fun render :: "piece \<Rightarrow> string" where
  "render (Text u) = u"
| "render (Bare c) = [CHR ''%'', c]"
| "render (Numbered n c) = CHR ''%'' # show_nat n @ [CHR ''$'', c]"

definition template :: "piece list \<Rightarrow> string" where
  "template ps = concat (map render ps)"

fun well_formed :: "piece \<Rightarrow> bool" where
  "well_formed (Text u) \<longleftrightarrow> CHR ''%'' \<notin> set u"
| "well_formed (Bare c) \<longleftrightarrow> c = CHR ''s'' \<or> c = CHR ''S''"
| "well_formed (Numbered n c) \<longleftrightarrow> c = CHR ''s'' \<or> c = CHR ''S''"

definition plain :: "jsval \<Rightarrow> bool" where
  "plain v \<longleftrightarrow> CHR ''%'' \<notin> set (ToString v) \<and> as_is (ToString v)"

fun spec_bare :: "jsval list \<Rightarrow> piece \<Rightarrow> piece" where
  "spec_bare xs (Bare c) = Text (ToString (first_arg xs))"
| "spec_bare xs p = p"

fun spec_positional :: "jsval list \<Rightarrow> piece \<Rightarrow> piece" where
  "spec_positional xs (Numbered n c) =
     (if 1 \<le> n \<and> n \<le> length xs then Text (ToString (xs ! (n - 1))) else Numbered n c)"
| "spec_positional xs p = p"

section \<open>Arguments that carry code of the caller\<close>

text \<open>
  \<^verbatim>\<open>args\<close> is documented as an array of any values. Two kinds of value bring code
  that runs inside \<^verbatim>\<open>getString\<close>: \<^verbatim>\<open>replace\<close> converts a replacement that is an
  object to a string, which calls the object's \<^verbatim>\<open>toString\<close>, and it calls a
  replacement that is a function for every match. The code belongs to the caller.
  Like all code of the add-on it can reach \<^verbatim>\<open>getString\<close> and assign to its three
  properties, and it can throw; so it is a function from the formatter to a result
  and a formatter.
\<close>

type_synonym caller_code = "formatter \<Rightarrow> (error + string) \<times> formatter"

text \<open>
  \<open>Object\<close> is an object with no \<^verbatim>\<open>length\<close> and the given \<^verbatim>\<open>toString\<close>. \<open>Function\<close> is a
  function: its source text, which is what \<^verbatim>\<open>toString\<close> of a function gives, and what
  a call with the matched text, the offset of the match and the whole subject does
  and returns as a string. \<open>Array\<close> is an array that may hold such values.
\<close>

datatype anyval =
    Prim jsval
  | Array "anyval list"
  | Object caller_code
  | Function string "string \<Rightarrow> nat \<Rightarrow> string \<Rightarrow> caller_code"

text \<open>\<^verbatim>\<open>v == null\<close>.\<close>

fun is_nullish :: "anyval \<Rightarrow> bool" where
  "is_nullish (Prim Undefined) \<longleftrightarrow> True"
| "is_nullish (Prim Null) \<longleftrightarrow> True"
| "is_nullish v \<longleftrightarrow> False"

text \<open>
  \<^verbatim>\<open>ToString\<close> of a replacement that is not a function. An array converts its elements
  from the left, so the code of one element runs in the state that the code of the
  elements before it left; an exception ends the conversion.
\<close>

fun ToString_any :: "anyval \<Rightarrow> caller_code"
  and join_any :: "anyval list \<Rightarrow> caller_code" where
  "ToString_any (Prim v) st = (Inr (ToString v), st)"
| "ToString_any (Array xs) st = join_any xs st"
| "ToString_any (Object toString) st = toString st"
| "ToString_any (Function source call) st = (Inr source, st)"
| "join_any [] st = (Inr [], st)"
| "join_any (x # xs) st =
     (case (if is_nullish x then (Inr [], st) else ToString_any x st) of
        (Inl ex, st') \<Rightarrow> (Inl ex, st')
      | (Inr s, st') \<Rightarrow>
          (if xs = [] then (Inr s, st')
           else (case join_any xs st' of
                   (Inl ex, st'') \<Rightarrow> (Inl ex, st'')
                 | (Inr r, st'') \<Rightarrow> (Inr (s @ CHR '','' # r), st''))))"

text \<open>
  The global replacement with a function: the scan of \<open>replace_from\<close>, but at a match
  the function is called and what it returns is inserted as it is. \<open>str\<close> is the
  whole subject and \<open>offset\<close> the position reached in it.
\<close>

function replace_call ::
  "string \<Rightarrow> (string \<Rightarrow> nat \<Rightarrow> string \<Rightarrow> caller_code) \<Rightarrow> string \<Rightarrow> nat \<Rightarrow> string \<Rightarrow> caller_code" where
  "replace_call pat call str offset [] st = (Inr [], st)"
| "replace_call pat call str offset (c # cs) st =
     (if pat \<noteq> [] \<and> ci_prefix pat (c # cs)
      then (case call (take (length pat) (c # cs)) offset str st of
              (Inl ex, st') \<Rightarrow> (Inl ex, st')
            | (Inr r, st') \<Rightarrow>
                (case replace_call pat call str (offset + length pat) (drop (length pat) (c # cs)) st' of
                   (Inl ex, st'') \<Rightarrow> (Inl ex, st'')
                 | (Inr rest, st'') \<Rightarrow> (Inr (r @ rest), st'')))
      else (case replace_call pat call str (offset + 1) cs st of
              (Inl ex, st') \<Rightarrow> (Inl ex, st')
            | (Inr rest, st') \<Rightarrow> (Inr (c # rest), st')))"
  by pat_completeness auto
termination
  by (relation "measure (\<lambda>(pat, call, str, offset, s, st). length s)") auto

declare replace_call.simps(2) [simp del]

text \<open>
  \<^verbatim>\<open>str.replace(pattern, replacement)\<close> for any replacement: a function is called at
  the matches; every other value is converted once, before the scan, whether the
  pattern matches or not.
\<close>

fun replace_any :: "string \<Rightarrow> anyval \<Rightarrow> string \<Rightarrow> caller_code" where
  "replace_any pat (Function source call) str st = replace_call pat call str 0 str st"
| "replace_any pat replacement str st =
     (case ToString_any replacement st of
        (Inl ex, st') \<Rightarrow> (Inl ex, st')
      | (Inr repl, st') \<Rightarrow> (Inr (replace_from pat repl [] str), st'))"

text \<open>
  Lines 85 and 86. The object has no \<^verbatim>\<open>length\<close> and is wrapped. A function has a
  \<^verbatim>\<open>length\<close>, the number of its parameters, and is not wrapped; it has no element at
  any index, so \<^verbatim>\<open>args[0]\<close> is \<^verbatim>\<open>undefined\<close> and \<^verbatim>\<open>Array.forEach\<close> visits nothing.
\<close>

fun to_array_any :: "anyval \<Rightarrow> anyval list" where
  "to_array_any (Prim v) = map Prim (to_array v)"
| "to_array_any (Array xs) = xs"
| "to_array_any (Object toString) = [Object toString]"
| "to_array_any (Function source call) = []"

definition first_arg_any :: "anyval list \<Rightarrow> anyval" where
  "first_arg_any xs = (case xs of [] \<Rightarrow> Prim Undefined | x # _ \<Rightarrow> x)"

text \<open>Line 89.\<close>

definition bare_pass_any :: "anyval list \<Rightarrow> string \<Rightarrow> caller_code" where
  "bare_pass_any xs str st = replace_any ''%s'' (first_arg_any xs) str st"

text \<open>Lines 92 to 94.\<close>

fun forEach_replace_any :: "nat \<Rightarrow> anyval list \<Rightarrow> string \<Rightarrow> caller_code" where
  "forEach_replace_any index [] str st = (Inr str, st)"
| "forEach_replace_any index (replacement # rest) str st =
     (case replace_any (positional index) replacement str st of
        (Inl ex, st') \<Rightarrow> (Inl ex, st')
      | (Inr str', st') \<Rightarrow> forEach_replace_any (index + 1) rest str' st')"

text \<open>Lines 83 to 95.\<close>

definition fill_args_any :: "anyval \<Rightarrow> string \<Rightarrow> caller_code" where
  "fill_args_any args str st =
     (if is_nullish args then (Inr str, st)
      else (case bare_pass_any (to_array_any args) str st of
              (Inl ex, st') \<Rightarrow> (Inl ex, st')
            | (Inr str', st') \<Rightarrow> forEach_replace_any 0 (to_array_any args) str' st'))"

text \<open>
  \<^verbatim>\<open>getString(name, args, plural)\<close> with any \<^verbatim>\<open>args\<close>. The bundles and the plural getter
  are read before the arguments are filled in; the state handed back is the one
  that the code of the arguments left. The plural getter is code of the host and
  is given a value without code.
\<close>

definition getString_any :: "formatter \<Rightarrow> string \<Rightarrow> anyval \<Rightarrow> jsval \<Rightarrow> (error + string) \<times> formatter" where
  "getString_any st name args q =
     (case lookup st name of
        Inl ex \<Rightarrow> (Inl ex, st)
      | Inr str \<Rightarrow>
          (case pick_plural st q str of
             Inl ex \<Rightarrow> (Inl ex, st)
           | Inr str' \<Rightarrow> fill_args_any args str' st))"

text \<open>
  The values that bring no code, however deep in arrays, and the value of the first
  section that such a value is.
\<close>

fun code_free :: "anyval \<Rightarrow> bool" where
  "code_free (Prim v) \<longleftrightarrow> True"
| "code_free (Array xs) \<longleftrightarrow> list_all code_free xs"
| "code_free (Object toString) \<longleftrightarrow> False"
| "code_free (Function source call) \<longleftrightarrow> False"

fun strip :: "anyval \<Rightarrow> jsval" where
  "strip (Prim v) = v"
| "strip (Array xs) = Arr (map strip xs)"
| "strip (Object toString) = Undefined"
| "strip (Function source call) = Undefined"

section \<open>Facts about the building blocks\<close>

subsection \<open>Case-insensitive matching and global replacement\<close>

lemma upcase_eq_iff:
  "upcase c = d \<longleftrightarrow>
     (if 97 \<le> (of_char c :: nat) \<and> (of_char c :: nat) \<le> 122
      then (of_char d :: nat) = of_char c - 32 else c = d)"
proof (cases "97 \<le> (of_char c :: nat) \<and> (of_char c :: nat) \<le> 122")
  case True
  have "char_of (of_char c - (32::nat)) = d \<longleftrightarrow> (of_char (char_of (of_char c - (32::nat)) :: char) :: nat) = of_char d"
    by (simp only: of_char_eq_iff)
  also have "\<dots> \<longleftrightarrow> (of_char d :: nat) = of_char c - 32"
    using True by auto
  finally show ?thesis using True by (simp add: upcase_def Let_def)
next
  case False
  then show ?thesis by (auto simp add: upcase_def Let_def)
qed

lemma upcase_percent [simp]: "upcase c = CHR ''%'' \<longleftrightarrow> c = CHR ''%''"
  by (auto simp: upcase_eq_iff)

lemma upcase_dollar [simp]: "upcase c = CHR ''$'' \<longleftrightarrow> c = CHR ''$''"
  by (auto simp: upcase_eq_iff)

lemma upcase_S: "upcase c = CHR ''S'' \<longleftrightarrow> c = CHR ''s'' \<or> c = CHR ''S''"
proof -
  have "(of_char c :: nat) = 115 \<longleftrightarrow> c = CHR ''s''"
    using of_char_eq_iff [of c "CHR ''s''", where ?'a = nat] by simp
  then show ?thesis by (auto simp: upcase_eq_iff)
qed

lemma upcase_consts [simp]:
  "upcase CHR ''%'' = CHR ''%''" "upcase CHR ''$'' = CHR ''$''"
  "upcase CHR ''s'' = CHR ''S''" "upcase CHR ''S'' = CHR ''S''"
  by (simp_all add: upcase_eq_iff)

lemma upcase_digit [simp]: "upcase (digit_char d) = digit_char d"
  by (simp add: upcase_eq_iff digit_char_def)

lemma upcase_eq_digit [simp]: "upcase c = digit_char d \<longleftrightarrow> c = digit_char d"
  by (auto simp: upcase_eq_iff digit_char_def)

lemma ci_prefix_Nil [simp]: "ci_prefix [] s" "\<not> ci_prefix (p # ps) []"
  by (simp_all add: ci_prefix_def)

lemma ci_prefix_Cons [simp]:
  "ci_prefix (p # ps) (c # cs) \<longleftrightarrow> upcase c = upcase p \<and> ci_prefix ps cs"
  by (auto simp: ci_prefix_def)

lemma ci_prefix_length: "ci_prefix pat s \<Longrightarrow> length pat \<le> length s"
  by (simp add: ci_prefix_def)

lemma ci_prefix_append_iff:
  "ci_prefix (ps @ qs) s \<longleftrightarrow> ci_prefix ps s \<and> ci_prefix qs (drop (length ps) s)"
proof (induction ps arbitrary: s)
  case Nil
  then show ?case by simp
next
  case (Cons p ps)
  then show ?case by (cases s) auto
qed

lemma ci_prefix_same_length:
  "length m = length pat \<Longrightarrow> ci_prefix pat (m @ v) \<longleftrightarrow> map upcase m = map upcase pat"
  by (simp add: ci_prefix_def)

text \<open>A match that starts with the only percent sign of the pattern ends before the next percent sign.\<close>

lemma ci_prefix_no_straddle:
  "ci_prefix ps (u @ CHR ''%'' # w) \<Longrightarrow> CHR ''%'' \<notin> set ps \<Longrightarrow> length ps \<le> length u"
proof (induction ps arbitrary: u)
  case Nil
  then show ?case by simp
next
  case (Cons p ps)
  show ?case
  proof (cases u)
    case Nil
    with Cons.prems have "upcase p = CHR ''%''" "p \<noteq> CHR ''%''" by auto
    then show ?thesis by simp
  next
    case (Cons d u')
    with Cons.prems Cons.IH [of u'] show ?thesis by auto
  qed
qed

lemma GetSubstitution_literal:
  "as_is repl \<Longrightarrow> GetSubstitution m b a repl = repl"
  by (induction m b a repl rule: GetSubstitution.induct) auto

lemma as_is_no_dollar: "CHR ''$'' \<notin> set repl \<Longrightarrow> as_is repl"
  by (induction repl rule: as_is.induct) auto

lemma replace_from_no_match:
  "\<not> ci_prefix pat (c # cs) \<Longrightarrow>
   replace_from pat repl b (c # cs) = c # replace_from pat repl (b @ [c]) cs"
  by (simp add: replace_from.simps(2))

lemma replace_from_match:
  assumes "pat \<noteq> []" and "length m = length pat" and "map upcase m = map upcase pat"
  shows "replace_from pat repl b (m @ v)
         = GetSubstitution m b v repl @ replace_from pat repl (b @ m) v"
proof -
  obtain c cs where m: "m @ v = c # cs" using assms(1,2) by (cases m) auto
  have td: "take (length pat) (m @ v) = m" "drop (length pat) (m @ v) = v"
    using assms(2) by simp_all
  have "ci_prefix pat (m @ v)"
    using ci_prefix_same_length [OF assms(2), of v] assms(3) by simp
  then have "replace_from pat repl b (c # cs)
     = GetSubstitution (take (length pat) (c # cs)) b (drop (length pat) (c # cs)) repl
       @ replace_from pat repl (b @ take (length pat) (c # cs)) (drop (length pat) (c # cs))"
    using assms(1) m by (simp add: replace_from.simps(2))
  then show ?thesis
    using td unfolding m [symmetric] by simp
qed

lemma replace_from_no_percent:
  "CHR ''%'' \<notin> set u \<Longrightarrow>
   replace_from (CHR ''%'' # ps) repl b (u @ v) = u @ replace_from (CHR ''%'' # ps) repl (b @ u) v"
proof (induction u arbitrary: b)
  case Nil
  then show ?case by simp
next
  case (Cons c u)
  then have "\<not> ci_prefix (CHR ''%'' # ps) (c # u @ v)" by auto
  then show ?case using Cons by (simp add: replace_from_no_match)
qed

lemma replace_from_before_irrelevant:
  "as_is repl \<Longrightarrow> replace_from pat repl b s = replace_from pat repl b' s"
proof (induction pat repl b s arbitrary: b' rule: replace_from.induct)
  case (1 pat repl left)
  then show ?case by simp
next
  case (2 pat repl left c cs)
  show ?case
  proof (cases "pat \<noteq> [] \<and> ci_prefix pat (c # cs)")
    case True
    have "replace_from pat repl b0 (c # cs)
          = repl @ replace_from pat repl (b0 @ take (length pat) (c # cs)) (drop (length pat) (c # cs))"
      for b0
      using True "2.prems"
      by (simp add: replace_from.simps(2) [of pat repl b0 c cs] GetSubstitution_literal)
    then show ?thesis
      using "2.IH"(1) [OF True "2.prems", of "b' @ take (length pat) (c # cs)"] by simp
  next
    case False
    have "replace_from pat repl b0 (c # cs) = c # replace_from pat repl (b0 @ [c]) cs" for b0
      using False by (auto simp add: replace_from.simps(2) [of pat repl b0 c cs])
    then show ?thesis
      using "2.IH"(2) [OF False "2.prems", of "b' @ [c]"] by simp
  qed
qed

text \<open>A match found in front of a percent sign lies wholly in front of it.\<close>

lemma match_before_percent:
  assumes "ci_prefix (CHR ''%'' # ps) (c # a @ CHR ''%'' # w)" and "CHR ''%'' \<notin> set ps"
  obtains m r where "c # a = m @ r" and "length m = length (CHR ''%'' # ps)"
    and "map upcase m = map upcase (CHR ''%'' # ps)" and "length r < length (c # a)"
proof -
  have len: "length ps \<le> length a"
    using assms ci_prefix_no_straddle [of ps a w] by simp
  let ?n = "length (CHR ''%'' # ps)"
  let ?m = "take ?n (c # a)" and ?r = "drop ?n (c # a)"
  have 1: "c # a = ?m @ ?r" by simp
  have 2: "length ?m = ?n" using len by simp
  have "take ?n (c # a @ CHR ''%'' # w) = ?m" using len by simp
  then have 3: "map upcase ?m = map upcase (CHR ''%'' # ps)"
    using assms(1) unfolding ci_prefix_def by metis
  have 4: "length ?r < length (c # a)" by simp
  show thesis using that [OF 1 2 3 4] .
qed

lemma replace_from_split_at_percent:
  assumes "CHR ''%'' \<notin> set ps"
  shows "\<exists>x. replace_from (CHR ''%'' # ps) repl b (a @ CHR ''%'' # w)
             = x @ replace_from (CHR ''%'' # ps) repl (b @ a) (CHR ''%'' # w)"
proof (induction a arbitrary: b rule: length_induct)
  case (1 a)
  let ?pat = "CHR ''%'' # ps"
  show ?case
  proof (cases a)
    case Nil
    then show ?thesis by simp
  next
    case (Cons c a')
    show ?thesis
    proof (cases "ci_prefix ?pat (c # a' @ CHR ''%'' # w)")
      case True
      from match_before_percent [OF True assms] obtain m r where
        mr: "c # a' = m @ r" "length m = length ?pat" "map upcase m = map upcase ?pat"
          "length r < length (c # a')" by blast
      have "replace_from ?pat repl b (m @ r @ CHR ''%'' # w)
            = GetSubstitution m b (r @ CHR ''%'' # w) repl
              @ replace_from ?pat repl (b @ m) (r @ CHR ''%'' # w)"
        using replace_from_match [OF _ mr(2,3)] by simp
      moreover obtain x where
        "replace_from ?pat repl (b @ m) (r @ CHR ''%'' # w)
         = x @ replace_from ?pat repl ((b @ m) @ r) (CHR ''%'' # w)"
        using "1.IH" [rule_format, of r "b @ m"] mr(4) Cons by auto
      ultimately have "replace_from ?pat repl b ((m @ r) @ CHR ''%'' # w)
            = (GetSubstitution m b (r @ CHR ''%'' # w) repl @ x)
              @ replace_from ?pat repl (b @ m @ r) (CHR ''%'' # w)"
        by simp
      then show ?thesis unfolding Cons mr(1) by blast
    next
      case False
      obtain x where
        "replace_from ?pat repl (b @ [c]) (a' @ CHR ''%'' # w)
         = x @ replace_from ?pat repl ((b @ [c]) @ a') (CHR ''%'' # w)"
        using "1.IH" [rule_format, of a' "b @ [c]"] Cons by auto
      then have "replace_from ?pat repl b ((c # a') @ CHR ''%'' # w)
         = (c # x) @ replace_from ?pat repl (b @ c # a') (CHR ''%'' # w)"
        using False by (simp add: replace_from_no_match)
      then show ?thesis unfolding Cons by blast
    qed
  qed
qed

lemma replace_from_append_percent:
  assumes "CHR ''%'' \<notin> set ps" and "as_is repl"
  shows "replace_from (CHR ''%'' # ps) repl b (a @ CHR ''%'' # w)
         = replace_from (CHR ''%'' # ps) repl b a @ replace_from (CHR ''%'' # ps) repl b (CHR ''%'' # w)"
proof (induction a arbitrary: b rule: length_induct)
  case (1 a)
  let ?pat = "CHR ''%'' # ps"
  note irr = replace_from_before_irrelevant [OF assms(2)]
  show ?case
  proof (cases a)
    case Nil
    then show ?thesis by simp
  next
    case (Cons c a')
    show ?thesis
    proof (cases "ci_prefix ?pat (c # a' @ CHR ''%'' # w)")
      case True
      from match_before_percent [OF True assms(1)] obtain m r where
        mr: "c # a' = m @ r" "length m = length ?pat" "map upcase m = map upcase ?pat"
          "length r < length (c # a')" by blast
      have "replace_from ?pat repl b (m @ r @ CHR ''%'' # w)
            = repl @ replace_from ?pat repl (b @ m) (r @ CHR ''%'' # w)"
        using replace_from_match [OF _ mr(2,3)] assms(2) by (simp add: GetSubstitution_literal)
      moreover have "replace_from ?pat repl (b @ m) (r @ CHR ''%'' # w)
         = replace_from ?pat repl (b @ m) r @ replace_from ?pat repl (b @ m) (CHR ''%'' # w)"
        using "1.IH" [rule_format, of r "b @ m"] mr(4) Cons by auto
      moreover have "replace_from ?pat repl b (m @ r)
            = repl @ replace_from ?pat repl (b @ m) r"
        using replace_from_match [OF _ mr(2,3)] assms(2) by (simp add: GetSubstitution_literal)
      ultimately have "replace_from ?pat repl b ((m @ r) @ CHR ''%'' # w)
            = replace_from ?pat repl b (m @ r) @ replace_from ?pat repl (b @ m) (CHR ''%'' # w)"
        by simp
      then show ?thesis unfolding Cons mr(1) using irr [of ?pat "b @ m" _ b] by simp
    next
      case False
      then have nm: "\<not> ci_prefix ?pat (c # a')"
        by (auto simp: ci_prefix_def)
      have "replace_from ?pat repl (b @ [c]) (a' @ CHR ''%'' # w)
         = replace_from ?pat repl (b @ [c]) a' @ replace_from ?pat repl (b @ [c]) (CHR ''%'' # w)"
        using "1.IH" [rule_format, of a' "b @ [c]"] Cons by auto
      then have "replace_from ?pat repl b ((c # a') @ CHR ''%'' # w)
         = replace_from ?pat repl b (c # a') @ replace_from ?pat repl (b @ [c]) (CHR ''%'' # w)"
        using False nm by (simp add: replace_from_no_match)
      then show ?thesis unfolding Cons using irr [of ?pat "b @ [c]" _ b] by simp
    qed
  qed
qed

subsection \<open>Decimal numbers and the placeholders\<close>

lemma show_nat_digit: "n < 10 \<Longrightarrow> show_nat n = [digit_char n]"
  by (simp add: show_nat.simps)

lemma digit_char_neq [simp]:
  "digit_char d \<noteq> CHR ''%''" "digit_char d \<noteq> CHR ''$''"
  "digit_char d \<noteq> CHR ''s''" "digit_char d \<noteq> CHR ''S''"
  "CHR ''%'' \<noteq> digit_char d" "CHR ''$'' \<noteq> digit_char d"
  "CHR ''s'' \<noteq> digit_char d" "CHR ''S'' \<noteq> digit_char d"
  by (simp_all add: digit_char_def)

lemma digit_char_inj: "d < 10 \<Longrightarrow> e < 10 \<Longrightarrow> digit_char d = digit_char e \<Longrightarrow> d = e"
  by (simp add: digit_char_def split: if_splits) arith

lemma show_nat_nonempty [simp]: "show_nat n \<noteq> []" "[] \<noteq> show_nat n"
  by (subst show_nat.simps, simp)+

lemma show_nat_digits: "set (show_nat n) \<subseteq> range digit_char"
proof (induction n rule: show_nat.induct)
  case (1 n)
  show ?case
  proof (cases "n < 10")
    case True
    then show ?thesis by (simp add: show_nat_digit)
  next
    case False
    then show ?thesis using 1 by (subst show_nat.simps) auto
  qed
qed

lemma show_nat_no_special [simp]:
  "CHR ''%'' \<notin> set (show_nat n)" "CHR ''$'' \<notin> set (show_nat n)"
  using show_nat_digits [of n] digit_char_neq by fastforce+

lemma show_nat_inj: "show_nat n = show_nat m \<Longrightarrow> n = m"
proof (induction n arbitrary: m rule: show_nat.induct)
  case (1 n)
  show ?case
  proof (cases "n < 10")
    case n: True
    show ?thesis
    proof (cases "m < 10")
      case True
      with n "1.prems" show ?thesis by (simp add: show_nat_digit digit_char_inj)
    next
      case False
      then have "show_nat m = show_nat (m div 10) @ [digit_char (m mod 10)]"
        by (subst show_nat.simps) simp
      with n "1.prems" show ?thesis by (simp add: show_nat_digit)
    qed
  next
    case n: False
    then have sn: "show_nat n = show_nat (n div 10) @ [digit_char (n mod 10)]"
      by (subst show_nat.simps) simp
    show ?thesis
    proof (cases "m < 10")
      case True
      with sn "1.prems" show ?thesis by (simp add: show_nat_digit)
    next
      case False
      then have sm: "show_nat m = show_nat (m div 10) @ [digit_char (m mod 10)]"
        by (subst show_nat.simps) simp
      from sn sm "1.prems" have "show_nat (n div 10) = show_nat (m div 10)"
        and "digit_char (n mod 10) = digit_char (m mod 10)" by simp_all
      then have "n div 10 = m div 10" and "n mod 10 = m mod 10"
        using "1.IH" [OF n] by (simp_all add: digit_char_inj)
      then show ?thesis by (metis div_mult_mod_eq)
    qed
  qed
qed

text \<open>Two runs of digits, each followed by a dollar sign, match only when they are equal.\<close>

lemma ci_prefix_digits:
  "ci_prefix (ds @ CHR ''$'' # ps) (es @ CHR ''$'' # rest) \<Longrightarrow>
   set ds \<subseteq> range digit_char \<Longrightarrow> set es \<subseteq> range digit_char \<Longrightarrow> ds = es"
proof (induction ds arbitrary: es)
  case Nil
  then show ?case by (cases es) auto
next
  case (Cons d ds)
  then show ?case by (cases es) auto
qed

lemma positional_Cons: "positional k = CHR ''%'' # (show_nat (k + 1) @ ''$S'')"
  by (simp add: positional_def)

lemma positional_tail [simp]:
  "CHR ''%'' \<notin> set (show_nat (k + 1) @ ''$S'')"
  by simp

text \<open>A placeholder for the number \<open>n\<close>, with either letter, is matched by the pattern of index \<open>k\<close> only for \<open>n = k + 1\<close>.\<close>

lemma positional_matches:
  assumes "c = CHR ''s'' \<or> c = CHR ''S''"
  shows "ci_prefix (positional k) (CHR ''%'' # show_nat n @ CHR ''$'' # c # b) \<longleftrightarrow> n = k + 1"
proof
  assume "ci_prefix (positional k) (CHR ''%'' # show_nat n @ CHR ''$'' # c # b)"
  then have "ci_prefix (show_nat (k + 1) @ CHR ''$'' # ''S'') (show_nat n @ CHR ''$'' # c # b)"
    by (simp add: positional_Cons)
  then have "show_nat (k + 1) = show_nat n"
    using ci_prefix_digits show_nat_digits by blast
  then show "n = k + 1" using show_nat_inj by metis
next
  assume "n = k + 1"
  then show "ci_prefix (positional k) (CHR ''%'' # show_nat n @ CHR ''$'' # c # b)"
    using assms by (auto simp: positional_Cons ci_prefix_append_iff ci_prefix_def)
qed

lemma bare_not_positional:
  "\<not> ci_prefix ''%s'' (CHR ''%'' # show_nat n @ rest)"
proof -
  obtain d ds where "show_nat n = d # ds" by (cases "show_nat n") auto
  moreover from this have "d \<in> range digit_char" using show_nat_digits [of n] by auto
  ultimately show ?thesis by auto
qed

lemma positional_not_bare:
  "c = CHR ''s'' \<or> c = CHR ''S'' \<Longrightarrow> \<not> ci_prefix (positional k) (CHR ''%'' # c # rest)"
proof -
  assume c: "c = CHR ''s'' \<or> c = CHR ''S''"
  obtain d ds where "show_nat (k + 1) = d # ds" by (cases "show_nat (k + 1)") auto
  moreover from this have "d \<in> range digit_char" using show_nat_digits [of "k + 1"] by auto
  ultimately show ?thesis using c by (auto simp: positional_Cons)
qed

subsection \<open>What one global replacement does around a placeholder\<close>

lemma replace_from_keeps:
  assumes "CHR ''%'' \<notin> set ps" and "CHR ''%'' \<notin> set u"
    and "\<not> ci_prefix (CHR ''%'' # ps) (CHR ''%'' # u @ b)"
  shows "\<exists>x. replace_from (CHR ''%'' # ps) repl b0 (a @ CHR ''%'' # u @ b)
             = x @ CHR ''%'' # u @ replace_from (CHR ''%'' # ps) repl (b0 @ a @ CHR ''%'' # u) b"
proof -
  let ?pat = "CHR ''%'' # ps"
  obtain x where "replace_from ?pat repl b0 (a @ CHR ''%'' # u @ b)
      = x @ replace_from ?pat repl (b0 @ a) (CHR ''%'' # u @ b)"
    using replace_from_split_at_percent [OF assms(1)] by blast
  moreover have "replace_from ?pat repl (b0 @ a) (CHR ''%'' # u @ b)
      = CHR ''%'' # replace_from ?pat repl ((b0 @ a) @ [CHR ''%'']) (u @ b)"
    using assms(3) by (rule replace_from_no_match)
  moreover have "replace_from ?pat repl ((b0 @ a) @ [CHR ''%'']) (u @ b)
      = u @ replace_from ?pat repl (((b0 @ a) @ [CHR ''%'']) @ u) b"
    using assms(2) by (rule replace_from_no_percent)
  ultimately show ?thesis by simp
qed

lemma replace_from_hit:
  assumes "CHR ''%'' \<notin> set ps" and "length m = length (CHR ''%'' # ps)"
    and "map upcase m = map upcase (CHR ''%'' # ps)"
  shows "\<exists>x. replace_from (CHR ''%'' # ps) repl b0 (a @ m @ b)
             = x @ GetSubstitution m (b0 @ a) b repl
                 @ replace_from (CHR ''%'' # ps) repl (b0 @ a @ m) b"
proof -
  let ?pat = "CHR ''%'' # ps"
  obtain m' where m: "m = CHR ''%'' # m'"
    using assms(2,3) by (cases m) auto
  obtain x where "replace_from ?pat repl b0 (a @ CHR ''%'' # m' @ b)
      = x @ replace_from ?pat repl (b0 @ a) (CHR ''%'' # m' @ b)"
    using replace_from_split_at_percent [OF assms(1)] by blast
  moreover have "replace_from ?pat repl (b0 @ a) (m @ b)
      = GetSubstitution m (b0 @ a) b repl @ replace_from ?pat repl ((b0 @ a) @ m) b"
    using replace_from_match [OF _ assms(2,3)] by simp
  ultimately show ?thesis unfolding m by auto
qed


lemma replace_from_literal_hit:
  assumes "CHR ''%'' \<notin> set ps" and "length m = length (CHR ''%'' # ps)"
    and "map upcase m = map upcase (CHR ''%'' # ps)" and "as_is repl"
  shows "replace_from (CHR ''%'' # ps) repl b0 (a @ m @ b)
         = replace_from (CHR ''%'' # ps) repl b0 a @ repl @ replace_from (CHR ''%'' # ps) repl b0 b"
proof -
  let ?pat = "CHR ''%'' # ps"
  note irr = replace_from_before_irrelevant [OF assms(4)]
  obtain m' where m: "m = CHR ''%'' # m'"
    using assms(2,3) by (cases m) auto
  have "replace_from ?pat repl b0 (a @ CHR ''%'' # m' @ b)
      = replace_from ?pat repl b0 a @ replace_from ?pat repl b0 (CHR ''%'' # m' @ b)"
    using assms(1,4) by (rule replace_from_append_percent)
  moreover have "replace_from ?pat repl b0 (m @ b)
      = repl @ replace_from ?pat repl (b0 @ m) b"
    using replace_from_match [OF _ assms(2,3)] assms(4) by (simp add: GetSubstitution_literal)
  ultimately show ?thesis unfolding m using irr [of ?pat "b0 @ CHR ''%'' # m'" b b0] by simp
qed

lemma replace_from_plain:
  "CHR ''%'' \<notin> set u \<Longrightarrow> replace_from (CHR ''%'' # ps) repl b0 u = u"
  using replace_from_no_percent [of u ps repl b0 "[]"] by simp

lemma upcase_below_letters:
  "(of_char d :: nat) < 65 \<Longrightarrow> upcase c = d \<longleftrightarrow> c = d"
  by (auto simp: upcase_eq_iff)

lemma upcase_not_small:
  "(of_char c :: nat) < 97 \<Longrightarrow> upcase c = c"
  by (simp add: upcase_eq_iff)

lemmas upcase_eval = upcase_below_letters upcase_not_small upcase_S

text \<open>A match cannot reach over a character that the pattern does not have.\<close>

lemma ci_prefix_stops:
  "ci_prefix ps (u @ x # w) \<Longrightarrow> upcase x \<notin> upcase ` set ps \<Longrightarrow> length ps \<le> length u"
proof (induction ps arbitrary: u)
  case Nil
  then show ?case by simp
next
  case (Cons p ps)
  show ?case
  proof (cases u)
    case Nil
    with Cons.prems show ?thesis by auto
  next
    case (Cons d u')
    with Cons.prems Cons.IH [of u'] show ?thesis by auto
  qed
qed

lemma ci_prefix_appendI: "ci_prefix pat u \<Longrightarrow> ci_prefix pat (u @ v)"
  by (auto simp: ci_prefix_def)

lemma match_before_stop:
  assumes "ci_prefix pat (c # a @ x # w)" and "upcase x \<notin> upcase ` set pat" and "pat \<noteq> []"
  obtains m r where "c # a = m @ r" and "length m = length pat"
    and "map upcase m = map upcase pat" and "length r < length (c # a)"
proof -
  obtain p ps where pat: "pat = p # ps" using assms(3) by (cases pat) auto
  have len: "length ps \<le> length a"
    using assms(1,2) ci_prefix_stops [of ps a x w] unfolding pat by simp
  let ?n = "length (p # ps)"
  let ?m = "take ?n (c # a)" and ?r = "drop ?n (c # a)"
  have 1: "c # a = ?m @ ?r" by simp
  have 2: "length ?m = ?n" using len by simp
  have "take ?n (c # a @ x # w) = ?m" using len by simp
  then have 3: "map upcase ?m = map upcase (p # ps)"
    using assms(1) unfolding ci_prefix_def pat by metis
  have 4: "length ?r < length (c # a)" by simp
  show thesis by (rule that [unfolded pat, OF 1 2 3 4])
qed

lemma replace_from_stop:
  assumes "upcase x \<notin> upcase ` set pat" and "pat \<noteq> []" and "as_is repl"
  shows "replace_from pat repl b (a @ x # w)
         = replace_from pat repl b a @ replace_from pat repl b (x # w)"
proof (induction a arbitrary: b rule: length_induct)
  case (1 a)
  note irr = replace_from_before_irrelevant [OF assms(3)]
  show ?case
  proof (cases a)
    case Nil
    then show ?thesis by simp
  next
    case (Cons c a')
    show ?thesis
    proof (cases "ci_prefix pat (c # a' @ x # w)")
      case True
      from match_before_stop [OF True assms(1,2)] obtain m r where
        mr: "c # a' = m @ r" "length m = length pat" "map upcase m = map upcase pat"
          "length r < length (c # a')" by blast
      have "replace_from pat repl b (m @ r @ x # w)
            = repl @ replace_from pat repl (b @ m) (r @ x # w)"
        using replace_from_match [OF assms(2) mr(2,3)] assms(3) by (simp add: GetSubstitution_literal)
      moreover have "replace_from pat repl (b @ m) (r @ x # w)
         = replace_from pat repl (b @ m) r @ replace_from pat repl (b @ m) (x # w)"
        using "1.IH" [rule_format, of r "b @ m"] mr(4) Cons by auto
      moreover have "replace_from pat repl b (m @ r) = repl @ replace_from pat repl (b @ m) r"
        using replace_from_match [OF assms(2) mr(2,3)] assms(3) by (simp add: GetSubstitution_literal)
      ultimately have "replace_from pat repl b ((m @ r) @ x # w)
            = replace_from pat repl b (m @ r) @ replace_from pat repl (b @ m) (x # w)"
        by simp
      then show ?thesis unfolding Cons mr(1) using irr [of pat "b @ m" _ b] by simp
    next
      case False
      then have nm: "\<not> ci_prefix pat (c # a')"
        using ci_prefix_appendI [of pat "c # a'" "x # w"] by auto
      have "replace_from pat repl (b @ [c]) (a' @ x # w)
         = replace_from pat repl (b @ [c]) a' @ replace_from pat repl (b @ [c]) (x # w)"
        using "1.IH" [rule_format, of a' "b @ [c]"] Cons by auto
      then have "replace_from pat repl b ((c # a') @ x # w)
         = replace_from pat repl b (c # a') @ replace_from pat repl (b @ [c]) (x # w)"
        using False nm by (simp add: replace_from_no_match)
      then show ?thesis unfolding Cons using irr [of pat "b @ [c]" _ b] by simp
    qed
  qed
qed

lemma positional_0: "positional 0 = ''%1$S''"
  by (simp add: positional_def show_nat_digit digit_char_def)

lemma positional_1: "positional (Suc 0) = ''%2$S''"
  by (simp add: positional_def show_nat_digit digit_char_def)

subsection \<open>The steps of getString\<close>

lemma getString_state [simp]: "snd (getString st name args q) = st"
  by (simp add: getString_def split: sum.splits)

lemma fst_getString:
  "fst (getString st name args q) =
     (case lookup st name of
        Inl ex \<Rightarrow> Inl ex
      | Inr str \<Rightarrow> (case pick_plural st q str of Inl ex \<Rightarrow> Inl ex | Inr str' \<Rightarrow> Inr (fill_args args str')))"
  by (simp add: getString_def split: sum.splits)

lemma lookup_miss:
  "bundle st = None \<or> (\<exists>p. bundle st = Some p \<and> p name = None) \<Longrightarrow>
   lookup st name = GetStringFromName (fallback st) name"
  by (auto simp: lookup_def GetStringFromName_def)

lemma pick_plural_absent [simp]:
  "pick_plural st Undefined str = Inr str" "pick_plural st Null str = Inr str"
  by (simp_all add: pick_plural_def)

lemma fill_args_absent [simp]:
  "fill_args Undefined str = str" "fill_args Null str = str"
  by (simp_all add: fill_args_def)

lemma init_result:
  "init env getAlternate st =
     (let st2 = st\<lparr>bundle := (case getBundle env (getSelectedLocale env) of
                                 Some b \<Rightarrow> Some b
                               | None \<Rightarrow> getBundle env (alternate getAlternate (getSelectedLocale env))),
                   fallback := getBundle env ''en-US''\<rparr>
      in case lookup st2 ''pluralRule'' of
           Inl ex \<Rightarrow> (Inl ex, st2)
         | Inr rule \<Rightarrow> (Inr (), st2\<lparr>plural := Some (makeGetter env rule)\<rparr>))"
  by (simp add: init_def Let_def getString_def split: sum.splits)


lemma forEach_replace_keeps:
  assumes "c = CHR ''s'' \<or> c = CHR ''S''" and "\<forall>i<length xs. n \<noteq> k + i + 1"
  shows "\<exists>a' b'. forEach_replace k xs (a @ CHR ''%'' # show_nat n @ CHR ''$'' # c # b)
                 = a' @ CHR ''%'' # show_nat n @ CHR ''$'' # c # b'"
  using assms(2)
proof (induction xs arbitrary: k a b)
  case Nil
  then show ?case by auto
next
  case (Cons v xs)
  have nk: "n \<noteq> k + 1" using Cons.prems by auto
  have "\<exists>x. replace_from (CHR ''%'' # (show_nat (k + 1) @ ''$S'')) (ToString v) []
              (a @ CHR ''%'' # (show_nat n @ [CHR ''$'', c]) @ b)
            = x @ CHR ''%'' # (show_nat n @ [CHR ''$'', c])
              @ replace_from (CHR ''%'' # (show_nat (k + 1) @ ''$S'')) (ToString v)
                  ([] @ a @ CHR ''%'' # (show_nat n @ [CHR ''$'', c])) b"
  proof (rule replace_from_keeps)
    show "\<not> ci_prefix (CHR ''%'' # show_nat (k + 1) @ ''$S'')
             (CHR ''%'' # (show_nat n @ [CHR ''$'', c]) @ b)"
      using positional_matches [OF assms(1), of k n b] nk by (simp add: positional_Cons)
    show "CHR ''%'' \<notin> set (show_nat n @ [CHR ''$'', c])" using assms(1) by auto
  qed simp
  then obtain x y where
    "replace (positional k) v (a @ CHR ''%'' # show_nat n @ CHR ''$'' # c # b)
     = x @ CHR ''%'' # show_nat n @ CHR ''$'' # c # y"
    by (auto simp: replace_def positional_Cons)
  moreover have "\<forall>i<length xs. n \<noteq> (k + 1) + i + 1" using Cons.prems by auto
  ultimately show ?case using Cons.IH [of "k + 1" x y] by simp
qed

lemma bare_pass_keeps:
  assumes "c = CHR ''s'' \<or> c = CHR ''S''"
  shows "\<exists>a' b'. bare_pass xs (a @ CHR ''%'' # show_nat n @ CHR ''$'' # c # b)
                 = a' @ CHR ''%'' # show_nat n @ CHR ''$'' # c # b'"
proof -
  have "\<exists>x. replace_from (CHR ''%'' # ''s'') (ToString (first_arg xs)) []
              (a @ CHR ''%'' # (show_nat n @ [CHR ''$'', c]) @ b)
            = x @ CHR ''%'' # (show_nat n @ [CHR ''$'', c])
              @ replace_from (CHR ''%'' # ''s'') (ToString (first_arg xs))
                  ([] @ a @ CHR ''%'' # (show_nat n @ [CHR ''$'', c])) b"
  proof (rule replace_from_keeps)
    show "\<not> ci_prefix ''%s'' (CHR ''%'' # (show_nat n @ [CHR ''$'', c]) @ b)"
      using bare_not_positional [of n "CHR ''$'' # c # b"] by simp
    show "CHR ''%'' \<notin> set (show_nat n @ [CHR ''$'', c])" using assms by auto
  qed simp
  then show ?thesis by (auto simp: bare_pass_def replace_def)
qed

lemma fill_args_keeps:
  assumes "c = CHR ''s'' \<or> c = CHR ''S''" and "n = 0 \<or> length (to_array args) < n"
  shows "\<exists>a' b'. fill_args args (a @ CHR ''%'' # show_nat n @ CHR ''$'' # c # b)
                 = a' @ CHR ''%'' # show_nat n @ CHR ''$'' # c # b'"
proof (cases "args \<noteq> Undefined \<and> args \<noteq> Null")
  case True
  obtain a1 b1 where "bare_pass (to_array args) (a @ CHR ''%'' # show_nat n @ CHR ''$'' # c # b)
                 = a1 @ CHR ''%'' # show_nat n @ CHR ''$'' # c # b1"
    using bare_pass_keeps [OF assms(1)] by blast
  moreover have "\<forall>i<length (to_array args). n \<noteq> 0 + i + 1" using assms(2) by auto
  ultimately show ?thesis
    using True forEach_replace_keeps [OF assms(1), of "to_array args" n 0 a1 b1]
    by (simp add: fill_args_def positional_pass_def)
next
  case False
  then show ?thesis by (auto simp: fill_args_def)
qed

subsection \<open>The passes on a sequence of pieces\<close>

lemma template_Cons [simp]: "template (p # ps) = render p @ template ps" "template [] = []"
  by (simp_all add: template_def)

lemma replace_bare_pieces:
  assumes "list_all well_formed ps" and "as_is r"
  shows "replace_from ''%s'' r b0 (template ps)
         = template (map (\<lambda>p. case p of Bare c \<Rightarrow> Text r | _ \<Rightarrow> p) ps)"
  using assms(1)
proof (induction ps arbitrary: b0)
  case Nil
  then show ?case by simp
next
  case (Cons p ps)
  then have IH: "replace_from ''%s'' r b1 (template ps)
         = template (map (\<lambda>p. case p of Bare c \<Rightarrow> Text r | _ \<Rightarrow> p) ps)" for b1
    by simp
  show ?case
  proof (cases p)
    case (Text u)
    then have "CHR ''%'' \<notin> set u" using Cons.prems by simp
    then show ?thesis using Text IH by (simp add: replace_from_no_percent)
  next
    case (Bare c)
    then have c: "c = CHR ''s'' \<or> c = CHR ''S''" using Cons.prems by simp
    have "replace_from ''%s'' r b0 ([CHR ''%'', c] @ template ps)
          = GetSubstitution [CHR ''%'', c] b0 (template ps) r
            @ replace_from ''%s'' r (b0 @ [CHR ''%'', c]) (template ps)"
      using c by (intro replace_from_match) auto
    then show ?thesis using Bare IH assms(2) by (simp add: GetSubstitution_literal)
  next
    case (Numbered n c)
    then have c: "c = CHR ''s'' \<or> c = CHR ''S''" using Cons.prems by simp
    have "replace_from ''%s'' r b0 (CHR ''%'' # show_nat n @ [CHR ''$'', c] @ template ps)
          = CHR ''%'' # replace_from ''%s'' r (b0 @ [CHR ''%'']) ((show_nat n @ [CHR ''$'', c]) @ template ps)"
      using bare_not_positional [of n "[CHR ''$'', c] @ template ps"]
      by (simp add: replace_from_no_match)
    moreover have "replace_from ''%s'' r (b0 @ [CHR ''%'']) ((show_nat n @ [CHR ''$'', c]) @ template ps)
          = (show_nat n @ [CHR ''$'', c]) @ replace_from ''%s'' r ((b0 @ [CHR ''%'']) @ show_nat n @ [CHR ''$'', c]) (template ps)"
      using c by (intro replace_from_no_percent) auto
    ultimately show ?thesis using Numbered IH by simp
  qed
qed

lemma replace_positional_pieces:
  assumes "list_all well_formed ps" and "as_is r"
  shows "replace_from (positional k) r b0 (template ps)
         = template (map (\<lambda>p. case p of Numbered n c \<Rightarrow> if n = k + 1 then Text r else p | _ \<Rightarrow> p) ps)"
  using assms(1)
proof (induction ps arbitrary: b0)
  case Nil
  then show ?case by simp
next
  case (Cons p ps)
  let ?f = "\<lambda>p. case p of Numbered n c \<Rightarrow> if n = k + 1 then Text r else p | _ \<Rightarrow> p"
  from Cons have IH: "replace_from (positional k) r b1 (template ps) = template (map ?f ps)" for b1
    by simp
  let ?pat = "CHR ''%'' # (show_nat (k + 1) @ ''$S'')"
  have pat: "positional k = ?pat" by (rule positional_Cons)
  show ?case
  proof (cases p)
    case (Text u)
    then have "CHR ''%'' \<notin> set u" using Cons.prems by simp
    then show ?thesis using Text IH by (simp add: pat replace_from_no_percent)
  next
    case (Bare c)
    then have c: "c = CHR ''s'' \<or> c = CHR ''S''" using Cons.prems by simp
    have "replace_from ?pat r b0 (CHR ''%'' # c # template ps)
          = CHR ''%'' # replace_from ?pat r (b0 @ [CHR ''%'']) ([c] @ template ps)"
      using positional_not_bare [OF c, of k "template ps"]
      by (simp add: pat replace_from_no_match)
    moreover have "replace_from ?pat r (b0 @ [CHR ''%'']) ([c] @ template ps)
          = [c] @ replace_from ?pat r ((b0 @ [CHR ''%'']) @ [c]) (template ps)"
      using c by (intro replace_from_no_percent) auto
    ultimately show ?thesis using Bare IH by (simp add: pat)
  next
    case (Numbered n c)
    then have c: "c = CHR ''s'' \<or> c = CHR ''S''" using Cons.prems by simp
    show ?thesis
    proof (cases "n = k + 1")
      case True
      have "replace_from ?pat r b0 ((CHR ''%'' # show_nat (k + 1) @ [CHR ''$'', c]) @ template ps)
          = GetSubstitution (CHR ''%'' # show_nat (k + 1) @ [CHR ''$'', c]) b0 (template ps) r
            @ replace_from ?pat r (b0 @ CHR ''%'' # show_nat (k + 1) @ [CHR ''$'', c]) (template ps)"
        using c by (intro replace_from_match) auto
      then show ?thesis using Numbered True IH assms(2) by (simp add: pat GetSubstitution_literal)
    next
      case False
      have "replace_from ?pat r b0 (CHR ''%'' # show_nat n @ [CHR ''$'', c] @ template ps)
          = CHR ''%'' # replace_from ?pat r (b0 @ [CHR ''%'']) ((show_nat n @ [CHR ''$'', c]) @ template ps)"
        using positional_matches [OF c, of k n "template ps"] False
        by (simp add: pat replace_from_no_match)
      moreover have "replace_from ?pat r (b0 @ [CHR ''%'']) ((show_nat n @ [CHR ''$'', c]) @ template ps)
          = (show_nat n @ [CHR ''$'', c]) @ replace_from ?pat r ((b0 @ [CHR ''%'']) @ show_nat n @ [CHR ''$'', c]) (template ps)"
        using c by (intro replace_from_no_percent) auto
      ultimately show ?thesis using Numbered False IH by (simp add: pat)
    qed
  qed
qed

lemma forEach_replace_pieces:
  assumes "list_all well_formed ps" and "list_all plain xs"
  shows "forEach_replace k xs (template ps)
         = template (map (\<lambda>p. case p of
                           Numbered n c \<Rightarrow>
                             if k < n \<and> n \<le> k + length xs then Text (ToString (xs ! (n - k - 1))) else p
                         | _ \<Rightarrow> p) ps)"
  using assms
proof (induction xs arbitrary: k ps)
  case Nil
  have "map (\<lambda>p. case p of Numbered n c \<Rightarrow> if k < n \<and> n \<le> k + length ([]::jsval list) then Text (ToString ([] ! (n - k - 1))) else p | _ \<Rightarrow> p) ps = ps"
    by (induction ps) (auto split: piece.splits)
  then show ?case by simp
next
  case (Cons v xs)
  let ?step = "\<lambda>p. case p of Numbered n c \<Rightarrow> if n = k + 1 then Text (ToString v) else p | _ \<Rightarrow> p"
  have v: "as_is (ToString v)" "CHR ''%'' \<notin> set (ToString v)"
    using Cons.prems(2) by (simp_all add: plain_def)
  have 1: "replace (positional k) v (template ps) = template (map ?step ps)"
    using replace_positional_pieces [OF Cons.prems(1) v(1)] by (simp add: replace_def)
  have 2: "list_all well_formed (map ?step ps)"
    using Cons.prems(1) v(2) by (induction ps) (auto split: piece.splits)
  have 3: "list_all plain xs" using Cons.prems(2) by simp
  have "(case ?step p of
           Numbered n c \<Rightarrow>
             if k + 1 < n \<and> n \<le> (k + 1) + length xs then Text (ToString (xs ! (n - (k + 1) - 1))) else ?step p
         | _ \<Rightarrow> ?step p)
        = (case p of
             Numbered n c \<Rightarrow>
               if k < n \<and> n \<le> k + length (v # xs) then Text (ToString ((v # xs) ! (n - k - 1))) else p
           | _ \<Rightarrow> p)" for p
    by (cases p) (auto simp: nth_Cons')
  then show ?case
    using Cons.IH [OF 2 3, of "k + 1"] 1 by (simp add: o_def)
qed

lemma spec_positional_eq:
  "spec_positional xs = (\<lambda>p. case p of
                           Numbered n c \<Rightarrow>
                             if 0 < n \<and> n \<le> 0 + length xs then Text (ToString (xs ! (n - 0 - 1))) else p
                         | _ \<Rightarrow> p)"
proof
  fix p show "spec_positional xs p = (case p of
                           Numbered n c \<Rightarrow>
                             if 0 < n \<and> n \<le> 0 + length xs then Text (ToString (xs ! (n - 0 - 1))) else p
                         | _ \<Rightarrow> p)"
    by (cases p) auto
qed

lemma spec_bare_eq:
  "spec_bare xs = (\<lambda>p. case p of Bare c \<Rightarrow> Text (ToString (first_arg xs)) | _ \<Rightarrow> p)"
proof
  fix p show "spec_bare xs p = (case p of Bare c \<Rightarrow> Text (ToString (first_arg xs)) | _ \<Rightarrow> p)"
    by (cases p) auto
qed

lemma plain_first_arg: "list_all plain xs \<Longrightarrow> plain (first_arg xs)"
  by (cases xs) (simp_all add: first_arg_def plain_def)

lemma bare_pass_pieces:
  assumes "list_all well_formed ps" and "list_all plain xs"
  shows "bare_pass xs (template ps) = template (map (spec_bare xs) ps)"
  using replace_bare_pieces [OF assms(1), of "ToString (first_arg xs)" "[]"] plain_first_arg [OF assms(2)]
  by (simp add: bare_pass_def replace_def spec_bare_eq plain_def)

lemma positional_pass_pieces:
  assumes "list_all well_formed ps" and "list_all plain xs"
  shows "positional_pass xs (template ps) = template (map (spec_positional xs) ps)"
  using forEach_replace_pieces [OF assms, of 0]
  by (simp only: positional_pass_def spec_positional_eq)

lemma well_formed_spec_bare:
  "list_all plain xs \<Longrightarrow> list_all well_formed ps \<Longrightarrow> list_all well_formed (map (spec_bare xs) ps)"
proof -
  assume xs: "list_all plain xs" and ps: "list_all well_formed ps"
  have "well_formed (spec_bare xs p)" if "well_formed p" for p
    using that plain_first_arg [OF xs] by (cases p) (auto simp: plain_def)
  then show ?thesis using ps by (induction ps) auto
qed

lemma well_formed_spec_positional:
  "list_all plain xs \<Longrightarrow> list_all well_formed ps \<Longrightarrow> list_all well_formed (map (spec_positional xs) ps)"
proof (induction ps)
  case Nil
  then show ?case by simp
next
  case (Cons p ps)
  have "well_formed (spec_positional xs p)"
  proof (cases p)
    case (Numbered n c)
    show ?thesis
    proof (cases "1 \<le> n \<and> n \<le> length xs")
      case True
      then have "n - 1 < length xs" by arith
      then have "xs ! (n - 1) \<in> set xs" by (rule nth_mem)
      then have "plain (xs ! (n - 1))" using Cons.prems(1) by (simp add: list_all_iff)
      then show ?thesis using Numbered True by (simp add: plain_def)
    next
      case False
      then show ?thesis using Numbered Cons.prems(2) by auto
    qed
  qed (use Cons.prems in auto)
  then show ?case using Cons by simp
qed

lemma spec_commute: "spec_positional xs (spec_bare xs p) = spec_bare xs (spec_positional xs p)"
  by (cases p) auto

subsection \<open>Arguments without code\<close>

text \<open>
  On values that bring no code, \<open>getString_any\<close> is \<open>getString\<close>.
\<close>

lemma is_nullish_strip:
  "code_free x \<Longrightarrow> is_nullish x \<longleftrightarrow> strip x = Undefined \<or> strip x = Null"
  by (cases x rule: is_nullish.cases) auto

lemma join_Cons: "join (x # xs) = (if xs = [] then x else x @ CHR '','' # join xs)"
  by (cases xs) auto

lemma ToString_any_code_free:
  "code_free x \<Longrightarrow> ToString_any x st = (Inr (ToString (strip x)), st)"
  "list_all code_free xs \<Longrightarrow> join_any xs st
     = (Inr (join (map (\<lambda>v. if v = Undefined \<or> v = Null then [] else ToString v) (map strip xs))), st)"
proof (induction x st and xs st rule: ToString_any_join_any.induct)
  case (6 x xs st)
  then show ?case by (simp add: join_Cons is_nullish_strip del: join.simps)
qed (simp_all add: comp_def)

lemma replace_any_code_free:
  "code_free x \<Longrightarrow> replace_any pat x str st = (Inr (replace pat (strip x) str), st)"
  by (cases x) (simp_all add: ToString_any_code_free replace_def del: ToString_any.simps)

lemma first_arg_any_code_free:
  "list_all code_free xs \<Longrightarrow> code_free (first_arg_any xs)"
  by (cases xs) (simp_all add: first_arg_any_def)

lemma strip_first_arg_any: "strip (first_arg_any xs) = first_arg (map strip xs)"
  by (cases xs) (simp_all add: first_arg_any_def first_arg_def)

lemma bare_pass_any_code_free:
  "list_all code_free xs \<Longrightarrow> bare_pass_any xs str st = (Inr (bare_pass (map strip xs) str), st)"
  by (simp add: bare_pass_any_def bare_pass_def replace_any_code_free first_arg_any_code_free
      strip_first_arg_any)

lemma forEach_replace_any_code_free:
  "list_all code_free xs \<Longrightarrow>
   forEach_replace_any index xs str st = (Inr (forEach_replace index (map strip xs) str), st)"
  by (induction xs arbitrary: index str) (simp_all add: replace_any_code_free)

lemma to_array_any_code_free:
  "code_free args \<Longrightarrow> list_all code_free (to_array_any args)"
  by (cases args) (simp_all add: list_all_iff)

lemma strip_to_array_any:
  "code_free args \<Longrightarrow> map strip (to_array_any args) = to_array (strip args)"
  by (cases args) (simp_all add: to_array_def comp_def split: jsval.splits)

lemma fill_args_any_code_free:
  "code_free args \<Longrightarrow> fill_args_any args str st = (Inr (fill_args (strip args) str), st)"
  by (simp add: fill_args_any_def fill_args_def is_nullish_strip bare_pass_any_code_free
      forEach_replace_any_code_free to_array_any_code_free strip_to_array_any positional_pass_def)

lemma getString_any_code_free:
  "code_free args \<Longrightarrow> getString_any st name args q = getString st name (strip args) q"
  by (simp add: getString_any_def getString_def fill_args_any_code_free split: sum.splits)

lemma getString_any_Prim: "getString_any st name (Prim v) q = getString st name v q"
  by (simp add: getString_any_code_free)

text \<open>
  A function given as an argument is called at every match, with the matched text
  and its offset, and what it returns is inserted as it is.
\<close>

lemma getString_any_calls:
  "getString_any \<lparr>bundle = Some [''k'' \<mapsto> ''a %s b %1$S c''], fallback = None, plural = None\<rparr> ''k''
     (Array [Function ''function'' (\<lambda>m off whole st. (Inr (''$&'' @ m @ show_nat off), st))]) Undefined
   = (Inr ''a $&%s2 b $&%1$S10 c'',
      \<lparr>bundle = Some [''k'' \<mapsto> ''a %s b %1$S c''], fallback = None, plural = None\<rparr>)"
  by (simp add: getString_any_def lookup_def GetStringFromName_def pick_plural_def
      fill_args_any_def bare_pass_any_def first_arg_any_def replace_call.simps
      positional_def show_nat.simps digit_char_def upcase_eval ci_prefix_def)

section \<open>Looking a key up\<close>

text \<open>
  C1, as the code has it. \<^verbatim>\<open>getString\<close> reads the key from the primary bundle first;
  the string found there is the one that is used. Only when the primary bundle has
  no such key (or there is no primary bundle) is the fallback bundle read. A key
  that neither bundle has makes the call fail: no string comes back, not even the
  empty one. The exception is the one \<^verbatim>\<open>GetStringFromName\<close> throws, \<open>MissingKey\<close>, when
  there is a fallback bundle to ask; when \<^verbatim>\<open>init\<close> could not load the fallback bundle,
  which \<^verbatim>\<open>init\<close> lets pass, it is the TypeError of reading \<^verbatim>\<open>null\<close>,
  \<open>LocaleUnavailable\<close>.
\<close>

theorem getString_lookup_order:
  "(\<forall>p t. bundle st = Some p \<longrightarrow> p name = Some t \<longrightarrow>
       lookup st name = Inr t \<and>
       fst (getString st name args q)
         = (case pick_plural st q t of Inl ex \<Rightarrow> Inl ex | Inr str \<Rightarrow> Inr (fill_args args str)))
   \<and> ((bundle st = None \<or> (\<exists>p. bundle st = Some p \<and> p name = None)) \<longrightarrow>
       (\<forall>f t. fallback st = Some f \<longrightarrow> f name = Some t \<longrightarrow>
          lookup st name = Inr t \<and>
          fst (getString st name args q)
            = (case pick_plural st q t of Inl ex \<Rightarrow> Inl ex | Inr str \<Rightarrow> Inr (fill_args args str)))
       \<and> (\<forall>f. fallback st = Some f \<longrightarrow> f name = None \<longrightarrow>
            fst (getString st name args q) = Inl MissingKey)
       \<and> (fallback st = None \<longrightarrow> fst (getString st name args q) = Inl LocaleUnavailable))"
  by (auto simp: fst_getString lookup_def GetStringFromName_def)

theorem getString_lookup_order_witness:
  "fst (getString \<lparr>bundle = Some [''askName'' \<mapsto> ''Name?''],
                   fallback = Some [''askName'' \<mapsto> ''What is your name?'', ''howMany'' \<mapsto> ''How many?''],
                   plural = None\<rparr> ''askName'' Undefined Undefined) = Inr ''Name?''
   \<and> fst (getString \<lparr>bundle = Some [''askName'' \<mapsto> ''Name?''],
                   fallback = Some [''askName'' \<mapsto> ''What is your name?'', ''howMany'' \<mapsto> ''How many?''],
                   plural = None\<rparr> ''howMany'' Undefined Undefined) = Inr ''How many?''
   \<and> fst (getString \<lparr>bundle = Some [''askName'' \<mapsto> ''Name?''],
                   fallback = Some [''askName'' \<mapsto> ''What is your name?'', ''howMany'' \<mapsto> ''How many?''],
                   plural = None\<rparr> ''confirm'' Undefined Undefined) = Inl MissingKey
   \<and> fst (getString \<lparr>bundle = Some [''askName'' \<mapsto> ''Name?''], fallback = None, plural = None\<rparr>
          ''confirm'' Undefined Undefined) = Inl LocaleUnavailable"
  using
    getString_lookup_order
      [of "\<lparr>bundle = Some [''askName'' \<mapsto> ''Name?''],
            fallback = Some [''askName'' \<mapsto> ''What is your name?'', ''howMany'' \<mapsto> ''How many?''],
            plural = None\<rparr>" "''askName''" Undefined Undefined]
    getString_lookup_order
      [of "\<lparr>bundle = Some [''askName'' \<mapsto> ''Name?''],
            fallback = Some [''askName'' \<mapsto> ''What is your name?'', ''howMany'' \<mapsto> ''How many?''],
            plural = None\<rparr>" "''howMany''" Undefined Undefined]
    getString_lookup_order
      [of "\<lparr>bundle = Some [''askName'' \<mapsto> ''Name?''],
            fallback = Some [''askName'' \<mapsto> ''What is your name?'', ''howMany'' \<mapsto> ''How many?''],
            plural = None\<rparr>" "''confirm''" Undefined Undefined]
    getString_lookup_order
      [of "\<lparr>bundle = Some [''askName'' \<mapsto> ''Name?''], fallback = None, plural = None\<rparr>"
          "''confirm''" Undefined Undefined]
  by simp

text \<open>
  \<open>MissingKey\<close> is not the exception in every state that \<^verbatim>\<open>init\<close> leaves: \<^verbatim>\<open>init\<close>
  succeeds with the bundle of \<^verbatim>\<open>fr\<close> when \<^verbatim>\<open>en-US\<close> cannot be loaded, and a key that is
  missing then ends in \<open>LocaleUnavailable\<close>.
\<close>

theorem getString_lookup_order_counterexample:
  "fst (init \<lparr>getBundle = [''fr'' \<mapsto> [''pluralRule'' \<mapsto> ''1'']], getSelectedLocale = ''fr'',
              makeGetter = (\<lambda>rule q str. Inr str)\<rparr>
          None \<lparr>bundle = None, fallback = None, plural = None\<rparr>) = Inr ()
   \<and> fst (getString
            (snd (init \<lparr>getBundle = [''fr'' \<mapsto> [''pluralRule'' \<mapsto> ''1'']], getSelectedLocale = ''fr'',
                        makeGetter = (\<lambda>rule q str. Inr str)\<rparr>
                    None \<lparr>bundle = None, fallback = None, plural = None\<rparr>))
            ''confirm'' Undefined Undefined) = Inl LocaleUnavailable
   \<and> fst (getString
            (snd (init \<lparr>getBundle = [''fr'' \<mapsto> [''pluralRule'' \<mapsto> ''1'']], getSelectedLocale = ''fr'',
                        makeGetter = (\<lambda>rule q str. Inr str)\<rparr>
                    None \<lparr>bundle = None, fallback = None, plural = None\<rparr>))
            ''confirm'' Undefined Undefined) \<noteq> Inl MissingKey"
  by (simp add: init_result alternate_def lookup_def GetStringFromName_def fst_getString)

text \<open>
  C7. A key that only the fallback bundle has (the primary bundle lacks it, or there
  is no primary bundle): \<^verbatim>\<open>getString(key)\<close>, with no arguments and no number, returns
  the string of the fallback bundle as it is.
\<close>

theorem getString_fallback_unmodified:
  assumes "fallback st = Some f" and "f name = Some t"
    and "bundle st = None \<or> (\<exists>p. bundle st = Some p \<and> p name = None)"
    and "args = Undefined \<or> args = Null" and "q = Undefined \<or> q = Null"
  shows "fst (getString st name args q) = Inr t"
proof -
  have "lookup st name = Inr t"
    using assms(1,2) lookup_miss [OF assms(3)] by (simp add: GetStringFromName_def)
  then show ?thesis
    using assms(4,5) by (auto simp: fst_getString)
qed

theorem getString_fallback_unmodified_witness:
  "fst (getString \<lparr>bundle = Some [''askName'' \<mapsto> ''Name?''],
                   fallback = Some [''money'' \<mapsto> ''%S coin;%S coins''], plural = None\<rparr>
          ''money'' Undefined Undefined) = Inr ''%S coin;%S coins''"
  using getString_fallback_unmodified
    [of "\<lparr>bundle = Some [''askName'' \<mapsto> ''Name?''],
          fallback = Some [''money'' \<mapsto> ''%S coin;%S coins''], plural = None\<rparr>"
        "[''money'' \<mapsto> ''%S coin;%S coins'']" "''money''" "''%S coin;%S coins''" Undefined Undefined]
  by simp

section \<open>The state\<close>

text \<open>
  C10, as the code has it. With arguments that bring no code of the caller
  (\<^verbatim>\<open>undefined\<close>, \<^verbatim>\<open>null\<close>, strings, numbers, and arrays of such values),
  \<^verbatim>\<open>getString\<close> leaves the two bundles and the plural getter as they are, and a
  second call with the same name, arguments and number, made in the state the first
  call left, returns what the first call returned.
\<close>

theorem getString_read_only:
  assumes "code_free args"
  shows "snd (getString_any st name args q) = st
       \<and> getString_any (snd (getString_any st name args q)) name args q
         = getString_any st name args q"
  using assms by (simp add: getString_any_code_free getString_state)

theorem getString_read_only_witness:
  "snd (getString_any \<lparr>bundle = Some [''k'' \<mapsto> ''%s and %2$S''], fallback = None, plural = None\<rparr>
          ''k'' (Array [Prim (Str ''Ed''), Array [Prim (Num 5), Prim Null]]) Undefined)
   = \<lparr>bundle = Some [''k'' \<mapsto> ''%s and %2$S''], fallback = None, plural = None\<rparr>
   \<and> getString_any
        (snd (getString_any \<lparr>bundle = Some [''k'' \<mapsto> ''%s and %2$S''], fallback = None, plural = None\<rparr>
                ''k'' (Array [Prim (Str ''Ed''), Array [Prim (Num 5), Prim Null]]) Undefined))
        ''k'' (Array [Prim (Str ''Ed''), Array [Prim (Num 5), Prim Null]]) Undefined
     = getString_any \<lparr>bundle = Some [''k'' \<mapsto> ''%s and %2$S''], fallback = None, plural = None\<rparr>
        ''k'' (Array [Prim (Str ''Ed''), Array [Prim (Num 5), Prim Null]]) Undefined"
proof -
  have "code_free (Array [Prim (Str ''Ed''), Array [Prim (Num 5), Prim Null]])" by simp
  from getString_read_only [OF this] show ?thesis by blast
qed

text \<open>
  Without the condition on \<^verbatim>\<open>args\<close> the statement fails. An object whose \<^verbatim>\<open>toString\<close> assigns
  to \<^verbatim>\<open>getString.bundle\<close> is converted by \<^verbatim>\<open>replace\<close> on line 89: the call returns
  \<^verbatim>\<open>x\<close> and leaves another bundle, and the same call again returns \<^verbatim>\<open>y\<close>.
\<close>

theorem getString_read_only_counterexample:
  "fst (getString_any \<lparr>bundle = Some [''k'' \<mapsto> ''%s''], fallback = None, plural = None\<rparr> ''k''
          (Object (\<lambda>st. (Inr ''x'', st\<lparr>bundle := Some [''k'' \<mapsto> ''y'']\<rparr>))) Undefined) = Inr ''x''
   \<and> fst (getString_any
            (snd (getString_any \<lparr>bundle = Some [''k'' \<mapsto> ''%s''], fallback = None, plural = None\<rparr> ''k''
                    (Object (\<lambda>st. (Inr ''x'', st\<lparr>bundle := Some [''k'' \<mapsto> ''y'']\<rparr>))) Undefined))
            ''k'' (Object (\<lambda>st. (Inr ''x'', st\<lparr>bundle := Some [''k'' \<mapsto> ''y'']\<rparr>))) Undefined) = Inr ''y''
   \<and> snd (getString_any \<lparr>bundle = Some [''k'' \<mapsto> ''%s''], fallback = None, plural = None\<rparr> ''k''
          (Object (\<lambda>st. (Inr ''x'', st\<lparr>bundle := Some [''k'' \<mapsto> ''y'']\<rparr>))) Undefined)
       \<noteq> \<lparr>bundle = Some [''k'' \<mapsto> ''%s''], fallback = None, plural = None\<rparr>"
proof -
  let ?c = "\<lambda>st. (Inr ''x'', st\<lparr>bundle := Some [''k'' \<mapsto> ''y'']\<rparr>)"
  let ?st = "\<lparr>bundle = Some [''k'' \<mapsto> ''%s''], fallback = None, plural = None\<rparr>"
  let ?st' = "\<lparr>bundle = Some [''k'' \<mapsto> ''y''], fallback = None, plural = None\<rparr>"
  have 1: "getString_any ?st ''k'' (Object ?c) Undefined = (Inr ''x'', ?st')"
    by (simp add: getString_any_def lookup_def GetStringFromName_def pick_plural_def
        fill_args_any_def bare_pass_any_def first_arg_any_def replace_from.simps
        positional_def show_nat_digit digit_char_def upcase_eval GetSubstitution_literal)
  have 2: "getString_any ?st' ''k'' (Object ?c) Undefined = (Inr ''y'', ?st')"
    by (simp add: getString_any_def lookup_def GetStringFromName_def pick_plural_def
        fill_args_any_def bare_pass_any_def first_arg_any_def replace_from.simps
        positional_def show_nat_digit digit_char_def upcase_eval)
  have 3: "?st' \<noteq> ?st"
  proof
    assume "?st' = ?st"
    then have "[''k'' \<mapsto> ''y''] ''k'' = [''k'' \<mapsto> ''%s''] ''k''" by simp
    then show False by simp
  qed
  show ?thesis unfolding 1 snd_conv fst_conv 2 using 3 by simp
qed

section \<open>Plural forms\<close>

text \<open>
  C3. With the rule "two forms, boundary at 1" and the template of the two forms
  \<^verbatim>\<open>one item\<close> and \<^verbatim>\<open>%s items\<close>: \<^verbatim>\<open>getString(key, 5, 5)\<close> picks the second form and
  returns \<^verbatim>\<open>5 items\<close>, \<^verbatim>\<open>getString(key, 1, 1)\<close> picks the first form and returns
  \<^verbatim>\<open>one item\<close>. The form is picked first; the arguments are filled into the picked
  form only.
\<close>

theorem getString_two_forms:
  assumes "lookup st key = Inr ''one item;%s items''"
    and "plural st = Some (plural_getter two_forms)"
  shows "fst (getString st key (Num 5) (Num 5)) = Inr ''5 items''
       \<and> fst (getString st key (Num 1) (Num 1)) = Inr ''one item''
       \<and> pick_plural st (Num 5) ''one item;%s items'' = Inr ''%s items''
       \<and> pick_plural st (Num 1) ''one item;%s items'' = Inr ''one item''
       \<and> (\<forall>args n. fst (getString st key args (Num n))
             = Inr (fill_args args (if n = 1 then ''one item'' else ''%s items'')))"
proof -
  have p: "pick_plural st (Num n) ''one item;%s items''
           = Inr (if n = 1 then ''one item'' else ''%s items'')" for n
    using assms(2) by (simp add: pick_plural_def plural_getter_def two_forms_def)
  have f5: "fill_args (Num 5) ''%s items'' = ''5 items''"
    by (simp add: fill_args_def to_array_def bare_pass_def positional_pass_def first_arg_def
        replace_def positional_def Number_toString_def number_text_def NumberValue_def show_nat_digit digit_char_def replace_from.simps)
  have f1: "fill_args (Num 1) ''one item'' = ''one item''"
    by (simp add: fill_args_def to_array_def bare_pass_def positional_pass_def first_arg_def
        replace_def positional_def Number_toString_def number_text_def NumberValue_def show_nat_digit digit_char_def replace_from.simps)
  show ?thesis
    using assms(1) p f5 f1 by (simp add: fst_getString)
qed

theorem getString_two_forms_witness:
  "fst (getString \<lparr>bundle = Some [''items'' \<mapsto> ''one item;%s items''], fallback = None,
                   plural = Some (plural_getter two_forms)\<rparr> ''items'' (Num 5) (Num 5)) = Inr ''5 items''
   \<and> fst (getString \<lparr>bundle = Some [''items'' \<mapsto> ''one item;%s items''], fallback = None,
                   plural = Some (plural_getter two_forms)\<rparr> ''items'' (Num 1) (Num 1)) = Inr ''one item''"
proof -
  let ?st = "\<lparr>bundle = Some [''items'' \<mapsto> ''one item;%s items''], fallback = None,
              plural = Some (plural_getter two_forms)\<rparr>"
  have 1: "lookup ?st ''items'' = Inr ''one item;%s items''"
    by (simp add: lookup_def GetStringFromName_def)
  have 2: "plural ?st = Some (plural_getter two_forms)"
    by simp
  from getString_two_forms [OF 1 2] show ?thesis by blast
qed

section \<open>Initialisation\<close>

text \<open>
  C4, as the code has it. \<^verbatim>\<open>init\<close> has no check of its own: it stores what
  \<^verbatim>\<open>getBundle\<close> gave, \<^verbatim>\<open>null\<close> included, and fails only if \<^verbatim>\<open>getString("pluralRule")\<close>
  fails.
  \<^item> When neither the selected locale nor the alternate nor \<^verbatim>\<open>en-US\<close> can be loaded,
    \<^verbatim>\<open>init\<close> fails with \<open>LocaleUnavailable\<close>.
  \<^item> When the selected locale and the alternate cannot be loaded but \<^verbatim>\<open>en-US\<close> can and
    has the key \<^verbatim>\<open>pluralRule\<close>, \<^verbatim>\<open>init\<close> succeeds with no primary bundle.
  \<^item> When the selected locale cannot be loaded and the alternate can, the bundle of
    the alternate becomes the primary bundle, and \<^verbatim>\<open>init\<close> succeeds if that bundle
    or the \<^verbatim>\<open>en-US\<close> bundle has the key \<^verbatim>\<open>pluralRule\<close>.
  \<^item> In every case the failure \<open>LocaleUnavailable\<close> occurs exactly when \<^verbatim>\<open>en-US\<close> cannot
    be loaded and the primary bundle that was stored, if any, lacks \<^verbatim>\<open>pluralRule\<close>.
\<close>

theorem init_locales:
  "(getBundle env (getSelectedLocale env) = None \<longrightarrow>
    getBundle env (alternate getAlternate (getSelectedLocale env)) = None \<longrightarrow>
      (getBundle env ''en-US'' = None \<longrightarrow> fst (init env getAlternate st) = Inl LocaleUnavailable)
    \<and> (\<forall>f rule. getBundle env ''en-US'' = Some f \<longrightarrow> f ''pluralRule'' = Some rule \<longrightarrow>
          init env getAlternate st
            = (Inr (), st\<lparr>bundle := None, fallback := Some f, plural := Some (makeGetter env rule)\<rparr>)))
   \<and> (\<forall>t. getBundle env (getSelectedLocale env) = None \<longrightarrow>
        getBundle env (alternate getAlternate (getSelectedLocale env)) = Some t \<longrightarrow>
          bundle (snd (init env getAlternate st)) = Some t
        \<and> (\<forall>rule. t ''pluralRule'' = Some rule \<longrightarrow>
             init env getAlternate st
               = (Inr (), st\<lparr>bundle := Some t, fallback := getBundle env ''en-US'',
                              plural := Some (makeGetter env rule)\<rparr>))
        \<and> (\<forall>f rule. t ''pluralRule'' = None \<longrightarrow> getBundle env ''en-US'' = Some f \<longrightarrow>
             f ''pluralRule'' = Some rule \<longrightarrow>
             init env getAlternate st
               = (Inr (), st\<lparr>bundle := Some t, fallback := Some f,
                              plural := Some (makeGetter env rule)\<rparr>)))
   \<and> (fst (init env getAlternate st) = Inl LocaleUnavailable \<longleftrightarrow>
        getBundle env ''en-US'' = None
        \<and> (\<forall>t. bundle (snd (init env getAlternate st)) = Some t \<longrightarrow> t ''pluralRule'' = None))"
  by (auto simp: init_result lookup_def GetStringFromName_def split: option.splits)

theorem init_locales_witness:
  "init \<lparr>getBundle = [''fr'' \<mapsto> [''pluralRule'' \<mapsto> ''1'']], getSelectedLocale = ''de'',
         makeGetter = (\<lambda>rule. plural_getter two_forms)\<rparr>
        (Some (\<lambda>locale. ''fr'')) \<lparr>bundle = None, fallback = None, plural = None\<rparr>
    = (Inr (), \<lparr>bundle = Some [''pluralRule'' \<mapsto> ''1''], fallback = None,
                plural = Some (plural_getter two_forms)\<rparr>)
   \<and> init \<lparr>getBundle = [''fr'' \<mapsto> [''askName'' \<mapsto> ''Nom?''], ''en-US'' \<mapsto> [''pluralRule'' \<mapsto> ''1'']],
         getSelectedLocale = ''de'', makeGetter = (\<lambda>rule. plural_getter two_forms)\<rparr>
        (Some (\<lambda>locale. ''fr'')) \<lparr>bundle = None, fallback = None, plural = None\<rparr>
    = (Inr (), \<lparr>bundle = Some [''askName'' \<mapsto> ''Nom?''], fallback = Some [''pluralRule'' \<mapsto> ''1''],
                plural = Some (plural_getter two_forms)\<rparr>)
   \<and> init \<lparr>getBundle = [''en-US'' \<mapsto> [''pluralRule'' \<mapsto> ''1'']], getSelectedLocale = ''de'',
         makeGetter = (\<lambda>rule. plural_getter two_forms)\<rparr>
        (Some (\<lambda>locale. ''fr'')) \<lparr>bundle = None, fallback = None, plural = None\<rparr>
    = (Inr (), \<lparr>bundle = None, fallback = Some [''pluralRule'' \<mapsto> ''1''],
                plural = Some (plural_getter two_forms)\<rparr>)
   \<and> fst (init \<lparr>getBundle = Map.empty, getSelectedLocale = ''de'',
         makeGetter = (\<lambda>rule. plural_getter two_forms)\<rparr>
        None \<lparr>bundle = None, fallback = None, plural = None\<rparr>) = Inl LocaleUnavailable"
  using
    init_locales
      [of "\<lparr>getBundle = [''fr'' \<mapsto> [''pluralRule'' \<mapsto> ''1'']], getSelectedLocale = ''de'',
            makeGetter = (\<lambda>rule. plural_getter two_forms)\<rparr>"
          "Some (\<lambda>locale. ''fr'')" "\<lparr>bundle = None, fallback = None, plural = None\<rparr>"]
    init_locales
      [of "\<lparr>getBundle = [''fr'' \<mapsto> [''askName'' \<mapsto> ''Nom?''], ''en-US'' \<mapsto> [''pluralRule'' \<mapsto> ''1'']],
            getSelectedLocale = ''de'', makeGetter = (\<lambda>rule. plural_getter two_forms)\<rparr>"
          "Some (\<lambda>locale. ''fr'')" "\<lparr>bundle = None, fallback = None, plural = None\<rparr>"]
    init_locales
      [of "\<lparr>getBundle = [''en-US'' \<mapsto> [''pluralRule'' \<mapsto> ''1'']], getSelectedLocale = ''de'',
            makeGetter = (\<lambda>rule. plural_getter two_forms)\<rparr>"
          "Some (\<lambda>locale. ''fr'')" "\<lparr>bundle = None, fallback = None, plural = None\<rparr>"]
    init_locales
      [of "\<lparr>getBundle = Map.empty, getSelectedLocale = ''de'',
            makeGetter = (\<lambda>rule. plural_getter two_forms)\<rparr>"
          None "\<lparr>bundle = None, fallback = None, plural = None\<rparr>"]
  by (simp add: alternate_def)

text \<open>
  The claim as the spec words it fails: neither \<^verbatim>\<open>de\<close> nor the alternate \<^verbatim>\<open>fr\<close> can
  be loaded, \<^verbatim>\<open>en-US\<close> can, and \<^verbatim>\<open>init\<close> succeeds.
\<close>

theorem init_unresolvable_counterexample:
  "fst (init \<lparr>getBundle = [''en-US'' \<mapsto> [''pluralRule'' \<mapsto> ''1'']], getSelectedLocale = ''de'',
              makeGetter = (\<lambda>rule. plural_getter two_forms)\<rparr>
          (Some (\<lambda>locale. ''fr'')) \<lparr>bundle = None, fallback = None, plural = None\<rparr>) = Inr ()
   \<and> fst (init \<lparr>getBundle = [''en-US'' \<mapsto> [''pluralRule'' \<mapsto> ''1'']], getSelectedLocale = ''de'',
              makeGetter = (\<lambda>rule. plural_getter two_forms)\<rparr>
          (Some (\<lambda>locale. ''fr'')) \<lparr>bundle = None, fallback = None, plural = None\<rparr>)
       \<noteq> Inl LocaleUnavailable"
  by (simp add: init_result alternate_def lookup_def GetStringFromName_def)

section \<open>Filling in the arguments\<close>

text \<open>
  C2, as the code has it. The template under the key \<^verbatim>\<open>hereHave\<close> is
  \<^verbatim>\<open>Here, have %s and %2$S\<close>. When the two replacements that follow the first pass
  leave the text of \<open>name\<close> as it is (they do when it holds neither \<^verbatim>\<open>%1$S\<close> nor
  \<^verbatim>\<open>%2$S\<close>), \<^verbatim>\<open>getString("hereHave", [name, money])\<close> returns \<^verbatim>\<open>Here, have \<close>, the
  text of \<open>name\<close>, \<^verbatim>\<open> and \<close>, the text of \<open>money\<close>: \<^verbatim>\<open>%s\<close> takes argument 0 and \<^verbatim>\<open>%2$S\<close>
  takes argument 1. The statement is about texts that are inserted as they are; of
  a text with one of the sequences \<^verbatim>\<open>$$\<close>, \<^verbatim>\<open>$&\<close>, \<^verbatim>\<open>$`\<close>, \<^verbatim>\<open>$'\<close> it says nothing.
\<close>

theorem getString_hereHave:
  assumes "lookup st ''hereHave'' = Inr ''Here, have %s and %2$S''"
    and "as_is (ToString name)" and "as_is (ToString money)"
    and "replace (positional 0) name (ToString name) = ToString name"
    and "replace (positional 1) money (ToString name) = ToString name"
  shows "fst (getString st ''hereHave'' (Arr [name, money]) Undefined)
         = Inr (''Here, have '' @ ToString name @ '' and '' @ ToString money)"
proof -
  let ?N = "ToString name" and ?M = "ToString money"
  have "replace_from ''%s'' ?N [] (''Here, have '' @ ''%s'' @ '' and %2$S'')
        = replace_from ''%s'' ?N [] ''Here, have '' @ ?N @ replace_from ''%s'' ?N [] '' and %2$S''"
    using assms(2) by (intro replace_from_literal_hit) simp_all
  moreover have "replace_from ''%s'' ?N [] ''Here, have '' = ''Here, have ''"
    by (rule replace_from_plain) simp
  moreover have "replace_from ''%s'' ?N [] '' and %2$S'' = '' and %2$S''"
    by (simp add: replace_from.simps upcase_eval)
  ultimately have bare: "bare_pass [name, money] ''Here, have %s and %2$S''
      = ''Here, have '' @ ?N @ '' and %2$S''"
    by (simp add: bare_pass_def first_arg_def replace_def)
  have through: "replace_from pat r [] (''Here, have '' @ ?N @ CHR '' '' # ''and %2$S'')
      = ''Here, have '' @ replace_from pat r [] ?N @ replace_from pat r [] '' and %2$S''"
    if r: "as_is r" and p: "pat = ''%1$S'' \<or> pat = ''%2$S''" for pat r
  proof -
    obtain ps where pat: "pat = CHR ''%'' # ps" using p by auto
    have "replace_from pat r [] (''Here, have '' @ ?N @ CHR '' '' # ''and %2$S'')
        = ''Here, have '' @ replace_from pat r ([] @ ''Here, have '') (?N @ CHR '' '' # ''and %2$S'')"
      unfolding pat by (rule replace_from_no_percent) simp
    moreover have "replace_from pat r ''Here, have '' (?N @ CHR '' '' # ''and %2$S'')
        = replace_from pat r ''Here, have '' ?N @ replace_from pat r ''Here, have '' (CHR '' '' # ''and %2$S'')"
      using r p by (intro replace_from_stop) (auto simp: upcase_eval)
    ultimately show ?thesis
      using replace_from_before_irrelevant [OF r, of pat "''Here, have ''" _ "[]"] by simp
  qed
  have "replace_from ''%1$S'' ?N [] '' and %2$S'' = '' and %2$S''"
    by (simp add: replace_from.simps upcase_eval)
  then have first: "replace (positional 0) name (''Here, have '' @ ?N @ '' and %2$S'')
      = ''Here, have '' @ ?N @ '' and %2$S''"
    using through [OF assms(2), of "''%1$S''"] assms(4) by (simp add: replace_def positional_0)
  have "replace_from ''%2$S'' ?M [] '' and %2$S'' = '' and '' @ ?M"
    using assms(3) by (simp add: replace_from.simps upcase_eval GetSubstitution_literal)
  then have second: "replace (positional (Suc 0)) money (''Here, have '' @ ?N @ '' and %2$S'')
      = ''Here, have '' @ ?N @ '' and '' @ ?M"
    using through [OF assms(3), of "''%2$S''"] assms(5) by (simp add: replace_def positional_1)
  have "fill_args (Arr [name, money]) ''Here, have %s and %2$S''
        = ''Here, have '' @ ?N @ '' and '' @ ?M"
    using bare first second by (simp add: fill_args_def to_array_def positional_pass_def)
  then show ?thesis using assms(1) by (simp add: fst_getString)
qed

theorem getString_hereHave_witness:
  "fst (getString \<lparr>bundle = Some [''hereHave'' \<mapsto> ''Here, have %s and %2$S''], fallback = None,
                   plural = None\<rparr> ''hereHave'' (Arr [Str ''Ed'', Str ''5 coins'']) Undefined)
   = Inr ''Here, have Ed and 5 coins''
   \<and> fst (getString \<lparr>bundle = Some [''hereHave'' \<mapsto> ''Here, have %s and %2$S''], fallback = None,
                   plural = None\<rparr> ''hereHave'' (Arr [Str ''A$B'', Str ''$5'']) Undefined)
   = Inr ''Here, have A$B and $5''"
proof -
  let ?st = "\<lparr>bundle = Some [''hereHave'' \<mapsto> ''Here, have %s and %2$S''], fallback = None,
               plural = None\<rparr>"
  have 1: "lookup ?st ''hereHave'' = Inr ''Here, have %s and %2$S''"
    by (simp add: lookup_def GetStringFromName_def)
  have 2: "as_is (ToString (Str ''Ed''))" "as_is (ToString (Str ''5 coins''))"
    "as_is (ToString (Str ''A$B''))" "as_is (ToString (Str ''$5''))"
    by simp_all
  have 3: "replace (positional 0) (Str ''Ed'') (ToString (Str ''Ed'')) = ToString (Str ''Ed'')"
    "replace (positional 1) (Str ''5 coins'') (ToString (Str ''Ed'')) = ToString (Str ''Ed'')"
    "replace (positional 0) (Str ''A$B'') (ToString (Str ''A$B'')) = ToString (Str ''A$B'')"
    "replace (positional 1) (Str ''$5'') (ToString (Str ''A$B'')) = ToString (Str ''A$B'')"
    by (simp_all add: replace_def replace_from.simps positional_0 positional_1)
  from getString_hereHave [OF 1 2(1) 2(2) 3(1) 3(2)] getString_hereHave [OF 1 2(3) 2(4) 3(3) 3(4)]
  show ?thesis by simp
qed

text \<open>
  Without the condition on \<open>name\<close> the claim fails: the text put in for \<^verbatim>\<open>%s\<close> is
  scanned again by the replacements that follow, so a name that reads \<^verbatim>\<open>%2$S\<close> is
  replaced by the money.
\<close>

theorem getString_hereHave_counterexample:
  "fst (getString \<lparr>bundle = Some [''hereHave'' \<mapsto> ''Here, have %s and %2$S''], fallback = None,
                   plural = None\<rparr> ''hereHave'' (Arr [Str ''%2$S'', Str ''5 coins'']) Undefined)
     = Inr ''Here, have 5 coins and 5 coins''
   \<and> fst (getString \<lparr>bundle = Some [''hereHave'' \<mapsto> ''Here, have %s and %2$S''], fallback = None,
                   plural = None\<rparr> ''hereHave'' (Arr [Str ''%2$S'', Str ''5 coins'']) Undefined)
     \<noteq> Inr (''Here, have '' @ ''%2$S'' @ '' and '' @ ''5 coins'')"
  by (simp add: fst_getString lookup_def GetStringFromName_def fill_args_def to_array_def
      bare_pass_def positional_pass_def first_arg_def replace_def replace_from.simps
      positional_def show_nat_digit digit_char_def upcase_eval)

text \<open>
  C5, as the code has it. A placeholder \<^verbatim>\<open>%N$S\<close> or \<^verbatim>\<open>%N$s\<close> whose number is 0 or
  greater than the number of arguments, standing in the string that is to be filled
  in (the template, or the form that the plural getter picked from it), is still in
  the returned string, and the call returns normally.
\<close>

theorem getString_missing_argument_kept:
  assumes "lookup st name = Inr t"
    and "pick_plural st q t = Inr (a @ ''%'' @ show_nat n @ [CHR ''$'', c] @ b)"
    and "c = CHR ''s'' \<or> c = CHR ''S''"
    and "n = 0 \<or> length (to_array args) < n"
  shows "\<exists>a' b'. fst (getString st name args q) = Inr (a' @ ''%'' @ show_nat n @ [CHR ''$'', c] @ b')"
proof -
  obtain a' b' where "fill_args args (a @ CHR ''%'' # show_nat n @ CHR ''$'' # c # b)
                 = a' @ CHR ''%'' # show_nat n @ CHR ''$'' # c # b'"
    using fill_args_keeps [OF assms(3,4)] by blast
  then have "fst (getString st name args q) = Inr (a' @ ''%'' @ show_nat n @ [CHR ''$'', c] @ b')"
    using assms(1,2) by (simp add: fst_getString)
  then show ?thesis by blast
qed

theorem getString_missing_argument_kept_witness:
  "(\<exists>a' b'. fst (getString \<lparr>bundle = Some [''hopeEnough'' \<mapsto> ''%1$S, is %3$s enough?''],
                            fallback = None, plural = None\<rparr>
                 ''hopeEnough'' (Arr [Str ''Ed'', Str ''5 coins'']) Undefined)
           = Inr (a' @ ''%3$s'' @ b'))
   \<and> (\<exists>a' b'. fst (getString \<lparr>bundle = Some [''money'' \<mapsto> ''one;%3$S more''],
                            fallback = None, plural = Some (\<lambda>q str. Inr (drop 4 str))\<rparr>
                 ''money'' (Num 2) (Num 2))
           = Inr (a' @ ''%3$S'' @ b'))"
proof -
  let ?st = "\<lparr>bundle = Some [''hopeEnough'' \<mapsto> ''%1$S, is %3$s enough?''],
               fallback = None, plural = None\<rparr>"
  let ?st' = "\<lparr>bundle = Some [''money'' \<mapsto> ''one;%3$S more''],
               fallback = None, plural = Some (\<lambda>q str. Inr (drop 4 str))\<rparr>"
  have s3: "show_nat 3 = ''3''" by (simp add: show_nat_digit digit_char_def)
  have 1: "lookup ?st ''hopeEnough'' = Inr ''%1$S, is %3$s enough?''"
    by (simp add: lookup_def GetStringFromName_def)
  have 2: "pick_plural ?st Undefined ''%1$S, is %3$s enough?''
           = Inr (''%1$S, is '' @ ''%'' @ show_nat 3 @ [CHR ''$'', CHR ''s''] @ '' enough?'')"
    by (simp add: s3)
  have 3: "CHR ''s'' = CHR ''s'' \<or> CHR ''s'' = CHR ''S''" by simp
  have 4: "(3::nat) = 0 \<or> length (to_array (Arr [Str ''Ed'', Str ''5 coins''])) < 3"
    by (simp add: to_array_def)
  have p1: "lookup ?st' ''money'' = Inr ''one;%3$S more''"
    by (simp add: lookup_def GetStringFromName_def)
  have p2: "pick_plural ?st' (Num 2) ''one;%3$S more''
           = Inr ([] @ ''%'' @ show_nat 3 @ [CHR ''$'', CHR ''S''] @ '' more'')"
    by (simp add: s3 pick_plural_def)
  have p3: "CHR ''S'' = CHR ''s'' \<or> CHR ''S'' = CHR ''S''" by simp
  have p4: "(3::nat) = 0 \<or> length (to_array (Num 2)) < 3"
    by (simp add: to_array_def)
  from getString_missing_argument_kept [OF 1 2 3 4] getString_missing_argument_kept [OF p1 p2 p3 p4]
  show ?thesis by (simp add: s3)
qed

text \<open>
  The bare placeholder is not covered: with an empty array, \<^verbatim>\<open>%s\<close> refers to an
  argument that is not there and is replaced by the text \<^verbatim>\<open>undefined\<close>.
\<close>

theorem getString_missing_argument_counterexample:
  "fst (getString \<lparr>bundle = Some [''confirm'' \<mapsto> ''%s''], fallback = None, plural = None\<rparr>
          ''confirm'' (Arr []) Undefined) = Inr ''undefined''
   \<and> fst (getString \<lparr>bundle = Some [''confirm'' \<mapsto> ''%s''], fallback = None, plural = None\<rparr>
          ''confirm'' (Arr []) Undefined) \<noteq> Inr ''%s''"
  by (simp add: fst_getString lookup_def GetStringFromName_def fill_args_def to_array_def
      bare_pass_def positional_pass_def first_arg_def replace_def replace_from.simps)


text \<open>
  C8. A placeholder is meant to be recognised whatever the case of its letter, and
  \<^verbatim>\<open>%S\<close> to be filled in as \<^verbatim>\<open>%s\<close> is. Both spellings are matched, but what is put in
  is not the value: \<^verbatim>\<open>replace\<close> expands the sequence \<^verbatim>\<open>$&\<close> of the value to the matched
  text, so with the argument \<^verbatim>\<open>$&\<close> the template \<^verbatim>\<open>%S\<close> comes back as \<^verbatim>\<open>%S\<close> and the
  template \<^verbatim>\<open>%s\<close> as \<^verbatim>\<open>%s\<close>, and likewise \<^verbatim>\<open>%1$s\<close> and \<^verbatim>\<open>%1$S\<close>; neither shows the
  value that the caller gave.
\<close>

theorem placeholder_case_echo:
  "fst (getString \<lparr>bundle = Some [''upper'' \<mapsto> ''%S'', ''lower'' \<mapsto> ''%s''], fallback = None,
                   plural = None\<rparr> ''upper'' (Str ''$&'') Undefined) = Inr ''%S''
   \<and> fst (getString \<lparr>bundle = Some [''upper'' \<mapsto> ''%S'', ''lower'' \<mapsto> ''%s''], fallback = None,
                   plural = None\<rparr> ''lower'' (Str ''$&'') Undefined) = Inr ''%s''
   \<and> bare_pass [Str ''$&''] ''%S'' = ''%S''
   \<and> bare_pass [Str ''$&''] ''%s'' = ''%s''
   \<and> positional_pass [Str ''$&''] ''%1$s'' = ''%1$s''
   \<and> positional_pass [Str ''$&''] ''%1$S'' = ''%1$S''"
  by (simp add: fst_getString lookup_def GetStringFromName_def fill_args_def to_array_def
      bare_pass_def positional_pass_def first_arg_def replace_def replace_from.simps
      positional_def show_nat_digit digit_char_def upcase_eval)

text \<open>
  C6, as the code has it. Both passes replace every occurrence. On a template made
  of well-formed pieces, with arguments whose texts have no percent sign, the pass
  for the first argument does what \<open>spec_bare\<close> says, the positional pass does what
  \<open>spec_positional\<close> says, and running the two passes in either order gives the same
  string. The statement is about texts that are inserted as they are; of a text
  with one of the sequences \<^verbatim>\<open>$$\<close>, \<^verbatim>\<open>$&\<close>, \<^verbatim>\<open>$`\<close>, \<^verbatim>\<open>$'\<close> it says nothing.
\<close>

theorem passes_commute:
  assumes "list_all well_formed ps" and "list_all plain xs"
  shows "bare_pass xs (template ps) = template (map (spec_bare xs) ps)
       \<and> positional_pass xs (template ps) = template (map (spec_positional xs) ps)
       \<and> positional_pass xs (bare_pass xs (template ps))
         = bare_pass xs (positional_pass xs (template ps))"
proof -
  have "positional_pass xs (bare_pass xs (template ps))
        = template (map (spec_positional xs) (map (spec_bare xs) ps))"
    using assms by (simp add: bare_pass_pieces positional_pass_pieces well_formed_spec_bare)
  moreover have "bare_pass xs (positional_pass xs (template ps))
        = template (map (spec_bare xs) (map (spec_positional xs) ps))"
    using assms by (simp add: bare_pass_pieces positional_pass_pieces well_formed_spec_positional)
  moreover have "map (spec_positional xs) (map (spec_bare xs) ps)
        = map (spec_bare xs) (map (spec_positional xs) ps)"
    by (simp add: spec_commute)
  ultimately show ?thesis
    using assms by (simp only: bare_pass_pieces positional_pass_pieces simp_thms)
qed

theorem passes_commute_witness:
  "positional_pass [Str ''Ed'', Str ''5 coins'']
      (bare_pass [Str ''Ed'', Str ''5 coins''] ''Here, have %s and %2$S'')
   = bare_pass [Str ''Ed'', Str ''5 coins'']
      (positional_pass [Str ''Ed'', Str ''5 coins''] ''Here, have %s and %2$S'')
   \<and> positional_pass [Str ''A$B'', Str ''$5'']
      (bare_pass [Str ''A$B'', Str ''$5''] ''Here, have %s and %2$S'')
   = bare_pass [Str ''A$B'', Str ''$5'']
      (positional_pass [Str ''A$B'', Str ''$5''] ''Here, have %s and %2$S'')"
proof -
  let ?ps = "[Text ''Here, have '', Bare CHR ''s'', Text '' and '', Numbered 2 CHR ''S'']"
  have 1: "list_all well_formed ?ps" by simp
  have 2: "list_all plain [Str ''Ed'', Str ''5 coins'']" "list_all plain [Str ''A$B'', Str ''$5'']"
    by (simp_all add: plain_def)
  have 3: "template ?ps = ''Here, have %s and %2$S''"
    by (simp add: template_def show_nat_digit digit_char_def)
  from passes_commute [OF 1 2(1)] passes_commute [OF 1 2(2)] show ?thesis unfolding 3 by blast
qed

text \<open>
  Without the condition on the arguments the passes do not commute, even on the
  template \<^verbatim>\<open>%s\<close>: the text put in by the first pass is a placeholder for the
  second.
\<close>

theorem passes_commute_counterexample:
  "positional_pass [Str ''%2$S'', Str ''x''] (bare_pass [Str ''%2$S'', Str ''x''] ''%s'') = ''x''
   \<and> bare_pass [Str ''%2$S'', Str ''x''] (positional_pass [Str ''%2$S'', Str ''x''] ''%s'') = ''%2$S''
   \<and> positional_pass [Str ''%2$S'', Str ''x''] (bare_pass [Str ''%2$S'', Str ''x''] ''%s'')
       \<noteq> bare_pass [Str ''%2$S'', Str ''x''] (positional_pass [Str ''%2$S'', Str ''x''] ''%s'')"
  by (simp add: bare_pass_def positional_pass_def first_arg_def replace_def replace_from.simps
      positional_def show_nat_digit digit_char_def upcase_eval)

end
